theory Spec2Isabelle
  imports Complex_Main "HOL-Library.Multiset" "HOL-Library.Sublist"
begin

text \<open>
  A model of the MT4 report converter: the timestamp functions, the report parser
  \<open>processReport\<close>, the classifier \<open>classifyAndGroupTrades\<close> (file
  \<open>tradeProcessor.ts\<close>) and the script generator \<open>generatePineScript\<close> (file
  \<open>pineScriptGenerator.ts\<close>), with the parts of the ECMAScript library they call.
  The definitions come first, in the order of the source; the properties follow.

  Conventions. A function that can throw returns a sum, \<open>Inl\<close> the exception. A
  \<open>Date\<close> is its time value, \<open>None\<close> for an invalid date. An object used as a
  dictionary and a \<open>Map\<close> are association lists in insertion order. Strings are lists
  of bytes; white space and letter case are those of ASCII.
\<close>

section \<open>JavaScript numbers\<close>

text \<open>
  A JavaScript number is NaN, an infinity or a finite value. Finite values are kept as
  exact rationals (every double is one); the code under study only compares, negates and
  prints them, so rounding plays no part. There is one zero.
\<close>

datatype number = NaN | NegInf | Fin rat | PosInf

fun num_lt :: "number \<Rightarrow> number \<Rightarrow> bool" where
  "num_lt (Fin a) (Fin b) = (a < b)"
| "num_lt (Fin a) PosInf = True"
| "num_lt NegInf (Fin b) = True"
| "num_lt NegInf PosInf = True"
| "num_lt _ _ = False"

definition num_gt :: "number \<Rightarrow> number \<Rightarrow> bool" where
  "num_gt a b = num_lt b a"

definition num_le :: "number \<Rightarrow> number \<Rightarrow> bool" where
  "num_le a b = (a \<noteq> NaN \<and> b \<noteq> NaN \<and> (a = b \<or> num_lt a b))"

definition num_ge :: "number \<Rightarrow> number \<Rightarrow> bool" where
  "num_ge a b = num_le b a"

fun num_neg :: "number \<Rightarrow> number" where
  "num_neg NaN = NaN"
| "num_neg NegInf = PosInf"
| "num_neg (Fin a) = Fin (- a)"
| "num_neg PosInf = NegInf"

fun num_add :: "number \<Rightarrow> number \<Rightarrow> number" where
  "num_add (Fin a) (Fin b) = Fin (a + b)"
| "num_add NaN _ = NaN"
| "num_add _ NaN = NaN"
| "num_add PosInf NegInf = NaN"
| "num_add NegInf PosInf = NaN"
| "num_add PosInf _ = PosInf"
| "num_add _ PosInf = PosInf"
| "num_add NegInf _ = NegInf"
| "num_add _ NegInf = NegInf"

definition num_sub :: "number \<Rightarrow> number \<Rightarrow> number" where
  "num_sub a b = num_add a (num_neg b)"

definition isNaN :: "number \<Rightarrow> bool" where
  "isNaN x = (x = NaN)"

text \<open>\<open>ToIntegerOrInfinity\<close> on a finite number: truncation towards zero.\<close>

definition trunc :: "rat \<Rightarrow> int" where
  "trunc r = (if 0 \<le> r then \<lfloor>r\<rfloor> else \<lceil>r\<rceil>)"

definition to_int :: "number \<Rightarrow> int option" where
  "to_int x = (case x of Fin r \<Rightarrow> Some (trunc r) | _ \<Rightarrow> None)"

section \<open>Strings to numbers\<close>

text \<open>
  Strings are byte strings. White space is the ASCII part of JavaScript's
  \<open>WhiteSpace\<close> and \<open>LineTerminator\<close> (TAB, LF, VT, FF, CR, SP).
\<close>

definition is_ws :: "char \<Rightarrow> bool" where
  "is_ws c = ((of_char c :: nat) \<in> {9, 10, 11, 12, 13, 32})"

definition trimStart :: "string \<Rightarrow> string" where
  "trimStart s = dropWhile is_ws s"

definition trim :: "string \<Rightarrow> string" where
  "trim s = rev (dropWhile is_ws (rev (dropWhile is_ws s)))"

definition is_digit :: "char \<Rightarrow> bool" where
  "is_digit c = (48 \<le> (of_char c :: nat) \<and> (of_char c :: nat) \<le> 57)"

definition digit_val :: "char \<Rightarrow> nat" where
  "digit_val c = of_char c - 48"

definition digits_val :: "string \<Rightarrow> nat" where
  "digits_val ds = foldl (\<lambda>a c. 10 * a + digit_val c) 0 ds"

definition pow10 :: "int \<Rightarrow> rat" where
  "pow10 e = (if 0 \<le> e then 10 ^ nat e else 1 / 10 ^ nat (- e))"

text \<open>An \<open>ExponentPart\<close> at the head of the string: its value and the rest.\<close>

definition parse_exponent :: "string \<Rightarrow> (int \<times> string) option" where
  "parse_exponent s =
     (case s of
        [] \<Rightarrow> None
      | c # r \<Rightarrow>
          if c = CHR ''e'' \<or> c = CHR ''E'' then
            (let sg = (case r of d # _ \<Rightarrow> if d = CHR ''-'' then - 1 else (1::int) | [] \<Rightarrow> 1);
                 r1 = (case r of d # r' \<Rightarrow> if d = CHR ''+'' \<or> d = CHR ''-'' then r' else r
                       | [] \<Rightarrow> r);
                 ds = takeWhile is_digit r1
             in if ds = [] then None
                else Some (sg * int (digits_val ds), dropWhile is_digit r1))
          else None)"

text \<open>
  The longest prefix that is a \<open>StrUnsignedDecimalLiteral\<close>, with its value and the
  rest of the string: \<open>Infinity\<close>, or digits with an optional fraction and exponent.
\<close>

definition parse_unsigned :: "string \<Rightarrow> (number \<times> string) option" where
  "parse_unsigned s =
     (if prefix ''Infinity'' s then Some (PosInf, drop 8 s)
      else
        (let ip = takeWhile is_digit s;
             r1 = dropWhile is_digit s;
             has_dot = (case r1 of c # _ \<Rightarrow> c = CHR ''.'' | [] \<Rightarrow> False);
             fp = (if has_dot then takeWhile is_digit (tl r1) else []);
             r2 = (if has_dot then dropWhile is_digit (tl r1) else r1)
         in if ip = [] \<and> fp = [] then None
            else
              (let m = of_nat (digits_val ip) + of_nat (digits_val fp) / 10 ^ length fp
               in case parse_exponent r2 of
                    None \<Rightarrow> Some (Fin m, r2)
                  | Some (e, r3) \<Rightarrow> Some (Fin (m * pow10 e), r3))))"

definition parse_signed :: "string \<Rightarrow> (number \<times> string) option" where
  "parse_signed s =
     (case s of
        [] \<Rightarrow> None
      | c # r \<Rightarrow>
          if c = CHR ''+'' then parse_unsigned r
          else if c = CHR ''-'' then map_option (\<lambda>(v, r'). (num_neg v, r')) (parse_unsigned r)
          else parse_unsigned s)"

text \<open>\<open>parseFloat\<close>: leading white space is skipped, the longest numeric prefix counts.\<close>

definition parseFloat :: "string \<Rightarrow> number" where
  "parseFloat s = (case parse_signed (trimStart s) of None \<Rightarrow> NaN | Some (v, _) \<Rightarrow> v)"

text \<open>Hexadecimal, octal and binary integer literals (\<open>0x1F\<close>, \<open>0o17\<close>, \<open>0b101\<close>).\<close>

definition radix_digit :: "char \<Rightarrow> nat option" where
  "radix_digit c =
     (let n = (of_char c :: nat) in
      if 48 \<le> n \<and> n \<le> 57 then Some (n - 48)
      else if 97 \<le> n \<and> n \<le> 102 then Some (n - 87)
      else if 65 \<le> n \<and> n \<le> 70 then Some (n - 55)
      else None)"

definition radix_val :: "nat \<Rightarrow> string \<Rightarrow> nat option" where
  "radix_val b ds =
     (if ds \<noteq> [] \<and> list_all (\<lambda>c. case radix_digit c of Some d \<Rightarrow> d < b | None \<Rightarrow> False) ds
      then Some (foldl (\<lambda>a c. b * a + the (radix_digit c)) 0 ds)
      else None)"

definition non_decimal :: "string \<Rightarrow> nat option" where
  "non_decimal s =
     (case s of
        z # k # ds \<Rightarrow>
          if z \<noteq> CHR ''0'' then None
          else if k = CHR ''x'' \<or> k = CHR ''X'' then radix_val 16 ds
          else if k = CHR ''o'' \<or> k = CHR ''O'' then radix_val 8 ds
          else if k = CHR ''b'' \<or> k = CHR ''B'' then radix_val 2 ds
          else None
      | _ \<Rightarrow> None)"

text \<open>\<open>Number(s)\<close> on a string: the whole trimmed string must be a numeric literal.\<close>

definition Number :: "string \<Rightarrow> number" where
  "Number s =
     (let t = trim s in
      if t = [] then Fin 0
      else case non_decimal t of
             Some n \<Rightarrow> Fin (of_nat n)
           | None \<Rightarrow> (case parse_signed t of Some (v, []) \<Rightarrow> v | _ \<Rightarrow> NaN))"

text \<open>\<open>s.split(c)\<close> for a one-character separator.\<close>

fun split_on :: "char \<Rightarrow> string \<Rightarrow> string list" where
  "split_on c [] = [[]]"
| "split_on c (x # xs) =
     (if x = c then [] # split_on c xs
      else (case split_on c xs of w # ws \<Rightarrow> (x # w) # ws | [] \<Rightarrow> [[x]]))"

text \<open>Array destructuring: a missing element is \<open>undefined\<close>, which arithmetic and
  \<open>Date.UTC\<close> read as NaN.\<close>

definition elem :: "number list \<Rightarrow> nat \<Rightarrow> number" where
  "elem xs i = (if i < length xs then xs ! i else NaN)"

section \<open>Time values\<close>

text \<open>
  A \<open>Date\<close> holds a time value: milliseconds since the epoch, or NaN for an invalid date
  (here \<open>None\<close>). The functions below are those of the ECMAScript specification.
\<close>

type_synonym time_value = "int option"

definition msPerSecond :: int where "msPerSecond = 1000"

definition msPerMinute :: int where "msPerMinute = 60000"

definition msPerHour :: int where "msPerHour = 3600000"

definition msPerDay :: int where "msPerDay = 86400000"

definition Day :: "int \<Rightarrow> int" where
  "Day t = t div msPerDay"

definition TimeWithinDay :: "int \<Rightarrow> int" where
  "TimeWithinDay t = t mod msPerDay"

definition DaysInYear :: "int \<Rightarrow> int" where
  "DaysInYear y =
     (if y mod 4 \<noteq> 0 then 365 else if y mod 100 \<noteq> 0 then 366
      else if y mod 400 \<noteq> 0 then 365 else 366)"

definition DayFromYear :: "int \<Rightarrow> int" where
  "DayFromYear y =
     365 * (y - 1970) + (y - 1969) div 4 - (y - 1901) div 100 + (y - 1601) div 400"

text \<open>
  \<open>YearFromTime\<close> is the largest year whose first day is not after the day of \<open>t\<close>.
  It is computed from an estimate that is off by at most one year
  (lemma \<open>YearFromDay_spec\<close> below shows that the result is that year).
\<close>

definition YearFromDay :: "int \<Rightarrow> int" where
  "YearFromDay d =
     (let y0 = 1970 + (400 * d) div 146097 in
      if d < DayFromYear y0 then y0 - 1
      else if DayFromYear (y0 + 1) \<le> d then y0 + 1
      else y0)"

definition YearFromTime :: "int \<Rightarrow> int" where
  "YearFromTime t = YearFromDay (Day t)"

definition InLeapYear :: "int \<Rightarrow> bool" where
  "InLeapYear t = (DaysInYear (YearFromTime t) = 366)"

definition DayWithinYear :: "int \<Rightarrow> int" where
  "DayWithinYear t = Day t - DayFromYear (YearFromTime t)"

text \<open>The day within the year on which month \<open>m\<close> (0 to 11) starts.\<close>

definition month_start :: "bool \<Rightarrow> int \<Rightarrow> int" where
  "month_start leap m =
     (let l = (if leap then 1 else 0) in
      if m = 0 then 0 else if m = 1 then 31 else if m = 2 then 59 + l
      else if m = 3 then 90 + l else if m = 4 then 120 + l else if m = 5 then 151 + l
      else if m = 6 then 181 + l else if m = 7 then 212 + l else if m = 8 then 243 + l
      else if m = 9 then 273 + l else if m = 10 then 304 + l else 334 + l)"

definition MonthFromTime :: "int \<Rightarrow> int" where
  "MonthFromTime t =
     (let d = DayWithinYear t; l = (if InLeapYear t then 1 else 0) in
      if d < 31 then 0 else if d < 59 + l then 1 else if d < 90 + l then 2
      else if d < 120 + l then 3 else if d < 151 + l then 4 else if d < 181 + l then 5
      else if d < 212 + l then 6 else if d < 243 + l then 7 else if d < 273 + l then 8
      else if d < 304 + l then 9 else if d < 334 + l then 10 else 11)"

definition DateFromTime :: "int \<Rightarrow> int" where
  "DateFromTime t = DayWithinYear t - month_start (InLeapYear t) (MonthFromTime t) + 1"

definition HourFromTime :: "int \<Rightarrow> int" where
  "HourFromTime t = (t div msPerHour) mod 24"

definition MinFromTime :: "int \<Rightarrow> int" where
  "MinFromTime t = (t div msPerMinute) mod 60"

definition SecFromTime :: "int \<Rightarrow> int" where
  "SecFromTime t = (t div msPerSecond) mod 60"

definition msFromTime :: "int \<Rightarrow> int" where
  "msFromTime t = t mod msPerSecond"

definition MakeTime :: "int \<Rightarrow> int \<Rightarrow> int \<Rightarrow> int \<Rightarrow> int" where
  "MakeTime h m s milli = h * msPerHour + m * msPerMinute + s * msPerSecond + milli"

definition MakeDay :: "int \<Rightarrow> int \<Rightarrow> int \<Rightarrow> int" where
  "MakeDay y m dt =
     (let ym = y + m div 12; mn = m mod 12 in
      DayFromYear ym + month_start (DaysInYear ym = 366) mn + dt - 1)"

definition MakeDate :: "int \<Rightarrow> int \<Rightarrow> int" where
  "MakeDate day time = day * msPerDay + time"

definition TimeClip :: "int \<Rightarrow> time_value" where
  "TimeClip t = (if 8640000000000000 < \<bar>t\<bar> then None else Some t)"

definition MakeFullYear :: "int \<Rightarrow> int" where
  "MakeFullYear y = (if 0 \<le> y \<and> y \<le> 99 then 1900 + y else y)"

text \<open>
  \<open>new Date(Date.UTC(year, month, date, hours, minutes, seconds))\<close>: a NaN or infinite
  argument gives an invalid date; finite arguments are truncated.
\<close>

definition Date_UTC ::
  "number \<Rightarrow> number \<Rightarrow> number \<Rightarrow> number \<Rightarrow> number \<Rightarrow> number \<Rightarrow> time_value" where
  "Date_UTC y m dt h mi s =
     Option.bind (to_int y) (\<lambda>y'. Option.bind (to_int m) (\<lambda>m'.
     Option.bind (to_int dt) (\<lambda>dt'. Option.bind (to_int h) (\<lambda>h'.
     Option.bind (to_int mi) (\<lambda>mi'. Option.bind (to_int s) (\<lambda>s'.
       TimeClip (MakeDate (MakeDay (MakeFullYear y') m' dt') (MakeTime h' mi' s' 0))))))))"

definition getTime :: "time_value \<Rightarrow> number" where
  "getTime d = (case d of None \<Rightarrow> NaN | Some t \<Rightarrow> Fin (of_int t))"

definition getUTCFullYear :: "time_value \<Rightarrow> number" where
  "getUTCFullYear d = (case d of None \<Rightarrow> NaN | Some t \<Rightarrow> Fin (of_int (YearFromTime t)))"

definition getUTCMonth :: "time_value \<Rightarrow> number" where
  "getUTCMonth d = (case d of None \<Rightarrow> NaN | Some t \<Rightarrow> Fin (of_int (MonthFromTime t)))"

definition getUTCDate :: "time_value \<Rightarrow> number" where
  "getUTCDate d = (case d of None \<Rightarrow> NaN | Some t \<Rightarrow> Fin (of_int (DateFromTime t)))"

definition getUTCHours :: "time_value \<Rightarrow> number" where
  "getUTCHours d = (case d of None \<Rightarrow> NaN | Some t \<Rightarrow> Fin (of_int (HourFromTime t)))"

definition getUTCMinutes :: "time_value \<Rightarrow> number" where
  "getUTCMinutes d = (case d of None \<Rightarrow> NaN | Some t \<Rightarrow> Fin (of_int (MinFromTime t)))"

text \<open>\<open>d.setUTCHours(h)\<close>, returning the date's new time value.\<close>

definition setUTCHours :: "time_value \<Rightarrow> number \<Rightarrow> time_value" where
  "setUTCHours d h =
     (case d of
        None \<Rightarrow> None
      | Some t \<Rightarrow>
          (case to_int h of
             None \<Rightarrow> None
           | Some h' \<Rightarrow>
               TimeClip (MakeDate (Day t)
                 (MakeTime h' (MinFromTime t) (SecFromTime t) (msFromTime t)))))"

section \<open>Timestamp reconciliation\<close>

datatype js_error = TypeError

definition MT4_UTC_OFFSET :: number where "MT4_UTC_OFFSET = Fin 3"

definition TV_UTC_OFFSET :: number where "TV_UTC_OFFSET = Fin (- 6)"

definition TV_DISPLAY_CORRECTION_HOURS :: number where "TV_DISPLAY_CORRECTION_HOURS = Fin 2"

text \<open>
  \<open>parseMT4DateToUTC\<close>. When the string holds no space, \<open>timePart\<close> is \<open>undefined\<close>
  and \<open>timePart.split\<close> throws a TypeError.
\<close>

definition parseMT4DateToUTC :: "string \<Rightarrow> js_error + time_value" where
  "parseMT4DateToUTC dateStr =
     (case split_on CHR '' '' dateStr of
        datePart # timePart # _ \<Rightarrow>
          (let ymd = map Number (split_on CHR ''.'' datePart);
               hms = map Number (split_on CHR '':'' timePart);
               date = Date_UTC (elem ymd 0) (num_sub (elem ymd 1) (Fin 1)) (elem ymd 2)
                        (elem hms 0) (elem hms 1) (elem hms 2)
           in Inr (setUTCHours date (num_sub (getUTCHours date) MT4_UTC_OFFSET)))
      | _ \<Rightarrow> Inl TypeError)"

record PineScriptTimestamp =
  year :: number
  month :: number
  day :: number
  hours :: number
  minutes :: number

definition convertToPineScriptTimestamp :: "time_value \<Rightarrow> PineScriptTimestamp" where
  "convertToPineScriptTimestamp trueUtcDate =
     (let totalOffset = num_add TV_UTC_OFFSET TV_DISPLAY_CORRECTION_HOURS;
          adjustedDate = setUTCHours trueUtcDate (num_add (getUTCHours trueUtcDate) totalOffset)
      in \<lparr> year = getUTCFullYear adjustedDate,
           month = num_add (getUTCMonth adjustedDate) (Fin 1),
           day = getUTCDate adjustedDate,
           hours = getUTCHours adjustedDate,
           minutes = getUTCMinutes adjustedDate \<rparr>)"

section \<open>Trades and grouping\<close>

record trade =
  ticket :: string
  openTimeRaw :: string
  type :: string
  size' :: number
  item :: string
  openPrice :: number
  closeTimeRaw :: string
  closePrice :: number
  profit :: number

record group =
  winners :: "trade list"
  breakeven :: "trade list"
  losers :: "trade list"

text \<open>
  \<open>GroupedTrades\<close> is an object used as a dictionary: its own properties in insertion
  order. (Property enumeration visits integer-like keys first; the order of the groups
  plays no part in what follows.)
\<close>

type_synonym GroupedTrades = "(string \<times> group) list"

text \<open>
  \<open>grouped\<close> starts as \<open>{}\<close>, so a key that names a property of \<open>Object.prototype\<close>
  reads as that inherited value: truthy, and without \<open>winners\<close>, \<open>breakeven\<close> or
  \<open>losers\<close>.
\<close>

definition object_prototype_keys :: "string list" where
  "object_prototype_keys =
     [''constructor'', ''__proto__'', ''hasOwnProperty'', ''isPrototypeOf'',
      ''propertyIsEnumerable'', ''toLocaleString'', ''toString'', ''valueOf'',
      ''__defineGetter__'', ''__defineSetter__'', ''__lookupGetter__'',
      ''__lookupSetter__'']"

datatype property = Undefined | Inherited | Own group

definition get_property :: "GroupedTrades \<Rightarrow> string \<Rightarrow> property" where
  "get_property grouped k =
     (case map_of grouped k of
        Some g \<Rightarrow> Own g
      | None \<Rightarrow> if k \<in> set object_prototype_keys then Inherited else Undefined)"

text \<open>\<open>grouped[k].bucket.push(t)\<close>: a TypeError unless \<open>grouped[k]\<close> is a group.\<close>

definition push_to :: "(group \<Rightarrow> group) \<Rightarrow> string \<Rightarrow> GroupedTrades \<Rightarrow> js_error + GroupedTrades" where
  "push_to f k grouped =
     (case get_property grouped k of
        Own _ \<Rightarrow> Inr (map (\<lambda>(k', g). if k' = k then (k', f g) else (k', g)) grouped)
      | _ \<Rightarrow> Inl TypeError)"

definition push_winner :: "trade \<Rightarrow> group \<Rightarrow> group" where
  "push_winner t g = g\<lparr>winners := winners g @ [t]\<rparr>"

definition push_breakeven :: "trade \<Rightarrow> group \<Rightarrow> group" where
  "push_breakeven t g = g\<lparr>breakeven := breakeven g @ [t]\<rparr>"

definition push_loser :: "trade \<Rightarrow> group \<Rightarrow> group" where
  "push_loser t g = g\<lparr>losers := losers g @ [t]\<rparr>"

definition empty_group :: group where
  "empty_group = \<lparr>winners = [], breakeven = [], losers = []\<rparr>"

text \<open>
  The deduplication key is the string \<open>`${openTimeRaw}_${openPrice}`\<close>. A number prints
  without an underscore and two numbers print alike only when they are equal, so the
  string determines the pair, and the pair stands for it.
\<close>

type_synonym dedup_key = "string \<times> number"

definition dedup_key_of :: "trade \<Rightarrow> dedup_key" where
  "dedup_key_of t = (openTimeRaw t, openPrice t)"

text \<open>A \<open>Map\<close> in insertion order; \<open>set\<close> on a present key keeps its position.\<close>

type_synonym winners_map = "(dedup_key \<times> trade) list"

definition map_set :: "dedup_key \<Rightarrow> trade \<Rightarrow> winners_map \<Rightarrow> winners_map" where
  "map_set k v m =
     (if map_of m k = None then m @ [(k, v)]
      else map (\<lambda>(k', v'). if k' = k then (k', v) else (k', v')) m)"

text \<open>The three-way test on \<open>trade.profit\<close>, in the order of the \<open>if\<close> chain.\<close>

datatype outcome = WinnerCandidate | Breakeven | Loser

definition classify :: "number \<Rightarrow> trade \<Rightarrow> outcome" where
  "classify beTolerance t =
     (if num_gt (profit t) beTolerance then WinnerCandidate
      else if num_ge (profit t) (num_neg beTolerance) \<and> num_le (profit t) beTolerance
      then Breakeven
      else Loser)"

text \<open>One iteration of the first loop of \<open>classifyAndGroupTrades\<close>.\<close>

definition first_pass_step ::
  "number \<Rightarrow> trade \<Rightarrow> GroupedTrades \<times> winners_map \<Rightarrow> js_error + GroupedTrades \<times> winners_map" where
  "first_pass_step beTolerance t st =
     (let grouped = (if get_property (fst st) (item t) = Undefined
                     then fst st @ [(item t, empty_group)] else fst st);
          winnersMap = snd st
      in case classify beTolerance t of
           WinnerCandidate \<Rightarrow>
             (let key = dedup_key_of t in
              case map_of winnersMap key of
                None \<Rightarrow> Inr (grouped, map_set key t winnersMap)
              | Some existingWinner \<Rightarrow>
                  if num_gt (profit t) (profit existingWinner)
                  then Inr (grouped, map_set key t winnersMap)
                  else Inr (grouped, winnersMap))
         | Breakeven \<Rightarrow>
             (case push_to (push_breakeven t) (item t) grouped of
                Inl e \<Rightarrow> Inl e | Inr g' \<Rightarrow> Inr (g', winnersMap))
         | Loser \<Rightarrow>
             (case push_to (push_loser t) (item t) grouped of
                Inl e \<Rightarrow> Inl e | Inr g' \<Rightarrow> Inr (g', winnersMap)))"

fun first_pass ::
  "number \<Rightarrow> trade list \<Rightarrow> GroupedTrades \<times> winners_map \<Rightarrow> js_error + GroupedTrades \<times> winners_map" where
  "first_pass beTolerance [] st = Inr st"
| "first_pass beTolerance (t # ts) st =
     (case first_pass_step beTolerance t st of
        Inl e \<Rightarrow> Inl e
      | Inr st' \<Rightarrow> first_pass beTolerance ts st')"

text \<open>The second loop: every surviving winner goes to its instrument's group.\<close>

fun second_pass :: "trade list \<Rightarrow> GroupedTrades \<Rightarrow> js_error + GroupedTrades" where
  "second_pass [] grouped = Inr grouped"
| "second_pass (w # ws) grouped =
     (case push_to (push_winner w) (item w) grouped of
        Inl e \<Rightarrow> Inl e
      | Inr g' \<Rightarrow> second_pass ws g')"

text \<open>
  The comparator of the three \<open>sort\<close> calls: the difference of the two true open times,
  NaN when a date is invalid, a TypeError when \<open>parseMT4DateToUTC\<close> throws.
\<close>

definition compare_open_time :: "trade \<Rightarrow> trade \<Rightarrow> js_error + number" where
  "compare_open_time a b =
     (case parseMT4DateToUTC (openTimeRaw a) of
        Inl e \<Rightarrow> Inl e
      | Inr ta \<Rightarrow>
          (case parseMT4DateToUTC (openTimeRaw b) of
             Inl e \<Rightarrow> Inl e
           | Inr tb \<Rightarrow> Inr (num_sub (getTime ta) (getTime tb))))"

text \<open>
  \<open>Array.prototype.sort\<close> is a stable sort; the language leaves the sequence of
  comparator calls to the implementation. It is modelled as a stable insertion sort: an
  element moves behind another only when the comparator's result is positive (NaN counts
  as zero), and an exception of the comparator ends the sort. A list of fewer than two
  elements is never compared.
\<close>

fun insert_sorted :: "trade \<Rightarrow> trade list \<Rightarrow> js_error + trade list" where
  "insert_sorted x [] = Inr [x]"
| "insert_sorted x (y # ys) =
     (case compare_open_time x y of
        Inl e \<Rightarrow> Inl e
      | Inr v \<Rightarrow>
          if num_gt v (Fin 0) then
            (case insert_sorted x ys of Inl e \<Rightarrow> Inl e | Inr r \<Rightarrow> Inr (y # r))
          else Inr (x # y # ys))"

fun sort_by_open_time :: "trade list \<Rightarrow> js_error + trade list" where
  "sort_by_open_time [] = Inr []"
| "sort_by_open_time (x # xs) =
     (case sort_by_open_time xs of
        Inl e \<Rightarrow> Inl e
      | Inr s \<Rightarrow> insert_sorted x s)"

definition sort_group :: "group \<Rightarrow> js_error + group" where
  "sort_group g =
     (case sort_by_open_time (winners g) of
        Inl e \<Rightarrow> Inl e
      | Inr w \<Rightarrow>
          (case sort_by_open_time (breakeven g) of
             Inl e \<Rightarrow> Inl e
           | Inr b \<Rightarrow>
               (case sort_by_open_time (losers g) of
                  Inl e \<Rightarrow> Inl e
                | Inr l \<Rightarrow> Inr \<lparr>winners = w, breakeven = b, losers = l\<rparr>)))"

fun third_pass :: "GroupedTrades \<Rightarrow> js_error + GroupedTrades" where
  "third_pass [] = Inr []"
| "third_pass ((k, g) # rest) =
     (case sort_group g of
        Inl e \<Rightarrow> Inl e
      | Inr g' \<Rightarrow>
          (case third_pass rest of
             Inl e \<Rightarrow> Inl e
           | Inr rest' \<Rightarrow> Inr ((k, g') # rest')))"

text \<open>The first two loops: grouping and deduplication, before the buckets are sorted.\<close>

definition group_passes :: "trade list \<Rightarrow> number \<Rightarrow> js_error + GroupedTrades" where
  "group_passes allTrades beTolerance =
     (case first_pass beTolerance allTrades ([], []) of
        Inl e \<Rightarrow> Inl e
      | Inr (grouped, winnersMap) \<Rightarrow> second_pass (map snd winnersMap) grouped)"

definition classifyAndGroupTrades :: "trade list \<Rightarrow> number \<Rightarrow> js_error + GroupedTrades" where
  "classifyAndGroupTrades allTrades beTolerance =
     (case group_passes allTrades beTolerance of
        Inl e \<Rightarrow> Inl e
      | Inr grouped \<Rightarrow> third_pass grouped)"

section \<open>The report parser\<close>

text \<open>
  The parsed document: text nodes and elements with their tag name (lower case, as the
  HTML parser normalises it) and children. Attributes and comments play no part.
\<close>

datatype node = Text string | Element string "node list"

text \<open>All descendants of a node in document order, the node itself excluded.\<close>

fun descendants :: "node \<Rightarrow> node list" where
  "descendants (Text s) = []"
| "descendants (Element tag children) = concat (map (\<lambda>c. c # descendants c) children)"

fun has_tag :: "string \<Rightarrow> node \<Rightarrow> bool" where
  "has_tag tag (Text s) = False"
| "has_tag tag (Element tag' children) = (tag' = tag)"

definition getElementsByTagName :: "string \<Rightarrow> node \<Rightarrow> node list" where
  "getElementsByTagName tag n = filter (has_tag tag) (descendants n)"

fun textContent :: "node \<Rightarrow> string" where
  "textContent (Text s) = s"
| "textContent (Element tag children) = concat (map textContent children)"

text \<open>\<open>s.includes(p)\<close>: \<open>p\<close> occurs in \<open>s\<close> as a contiguous substring.\<close>

fun str_includes :: "string \<Rightarrow> string \<Rightarrow> bool" where
  "str_includes [] p = (p = [])"
| "str_includes (c # cs) p = (prefix p (c # cs) \<or> str_includes cs p)"

text \<open>\<open>s || d\<close> on strings: the empty string is falsy.\<close>

definition or_else :: "string \<Rightarrow> string \<Rightarrow> string" where
  "or_else s d = (if s = [] then d else s)"

text \<open>\<open>s.replace(/ /g, '')\<close>.\<close>

definition remove_spaces :: "string \<Rightarrow> string" where
  "remove_spaces s = filter (\<lambda>c. c \<noteq> CHR '' '') s"

text \<open>\<open>s.toLowerCase()\<close> and \<open>s.toUpperCase()\<close> on ASCII letters; other bytes stay.\<close>

definition toLowerCase :: "string \<Rightarrow> string" where
  "toLowerCase s =
     map (\<lambda>c. if 65 \<le> (of_char c :: nat) \<and> (of_char c :: nat) \<le> 90
               then char_of ((of_char c :: nat) + 32) else c) s"

definition toUpperCase :: "string \<Rightarrow> string" where
  "toUpperCase s =
     map (\<lambda>c. if 97 \<le> (of_char c :: nat) \<and> (of_char c :: nat) \<le> 122
               then char_of ((of_char c :: nat) - 32) else c) s"

text \<open>The \<open>textContent\<close> of the \<open>td\<close> cells of a row.\<close>

definition cell_texts :: "node \<Rightarrow> string list" where
  "cell_texts row = map textContent (getElementsByTagName ''td'' row)"

text \<open>The three tests the row loop makes on the cells of a row.\<close>

definition is_sentinel :: "string list \<Rightarrow> bool" where
  "is_sentinel cells = (cells \<noteq> [] \<and> trim (hd cells) = ''Closed Transactions:'')"

definition is_terminator :: "string list \<Rightarrow> bool" where
  "is_terminator cells =
     (cells \<noteq> [] \<and> (str_includes (hd cells) ''Open Trades:'' \<or> str_includes (hd cells) ''Closed P/L:''))"

definition is_trade_row :: "string list \<Rightarrow> bool" where
  "is_trade_row cells = (length cells = 14 \<and> \<not> isNaN (parseFloat (or_else (hd cells) '''')))"

text \<open>The trade record built from the fourteen cells of an accepted row.\<close>

definition row_to_trade :: "string list \<Rightarrow> trade" where
  "row_to_trade cells =
     (let profit = parseFloat (remove_spaces (or_else (cells ! 13) ''0''))
      in \<lparr>ticket = or_else (trim (cells ! 0)) '''',
          openTimeRaw = or_else (trim (cells ! 1)) '''',
          type = or_else (trim (cells ! 2)) ''unknown'',
          size' = parseFloat (or_else (trim (cells ! 3)) ''0''),
          item = toLowerCase (or_else (trim (cells ! 4)) ''unknown''),
          openPrice = parseFloat (or_else (trim (cells ! 5)) ''0''),
          closeTimeRaw = or_else (trim (cells ! 8)) '''',
          closePrice = parseFloat (or_else (trim (cells ! 9)) ''0''),
          profit = profit\<rparr>)"

text \<open>
  The loop over the rows of the table, from the state \<open>isProcessing\<close>; the result is
  \<open>allTrades\<close>. \<open>continue\<close> goes on with the next row, \<open>break\<close> ends the loop.
\<close>

fun scan_rows :: "bool \<Rightarrow> string list list \<Rightarrow> trade list" where
  "scan_rows isProcessing [] = []"
| "scan_rows isProcessing (cells # rows) =
     (if is_sentinel cells then scan_rows True rows
      else if \<not> isProcessing then scan_rows isProcessing rows
      else if is_terminator cells then []
      else if is_trade_row cells then row_to_trade cells # scan_rows isProcessing rows
      else scan_rows isProcessing rows)"

text \<open>The first table whose text contains the marker.\<close>

fun find_table :: "node list \<Rightarrow> node option" where
  "find_table [] = None"
| "find_table (t # ts) =
     (if str_includes (textContent t) ''Closed Transactions:'' then Some t else find_table ts)"

text \<open>
  The three rejections of \<open>processReport\<close>, by their messages: "Could not find the
  'Closed Transactions' table in the report.", "No closed trades found in the report.
  Please check the file content." and, from the \<open>catch\<close> clause, "Failed to parse the
  HTML file. It might be corrupted or in an unexpected format.".
\<close>

datatype report_error = MissingSectionError | EmptyReportError | MalformedInputError

text \<open>
  \<open>processReport\<close>. The browser's HTML parser is a parameter: it maps every string to a
  document and never throws. The promise is its outcome: rejected (\<open>Inl\<close>) or resolved.
\<close>

definition processReport ::
  "(string \<Rightarrow> node) \<Rightarrow> string \<Rightarrow> number \<Rightarrow> report_error + GroupedTrades" where
  "processReport parseFromString htmContent beTolerance =
     (let doc = parseFromString htmContent;
          tables = getElementsByTagName ''table'' doc
      in case find_table tables of
           None \<Rightarrow> Inl MissingSectionError
         | Some closedTransactionsTable \<Rightarrow>
             (let rows = getElementsByTagName ''tr'' closedTransactionsTable;
                  allTrades = scan_rows False (map cell_texts rows)
              in if allTrades = [] then Inl EmptyReportError
                 else case classifyAndGroupTrades allTrades beTolerance of
                        Inl e \<Rightarrow> Inl MalformedInputError
                      | Inr groupedTrades \<Rightarrow> Inr groupedTrades))"

definition td :: "string \<Rightarrow> node" where
  "td s = Element ''td'' [Text s]"

definition tr :: "string list \<Rightarrow> node" where
  "tr cells = Element ''tr'' (map td cells)"

text \<open>
  The rows the parser is specified to accept: those after the first header-sentinel row
  and before the first terminator row that follows it, that have fourteen cells and a
  numeric first cell.
\<close>

definition accepted_rows :: "string list list \<Rightarrow> string list list" where
  "accepted_rows rows =
     filter is_trade_row
       (takeWhile (\<lambda>r. \<not> is_terminator r)
          (drop 1 (dropWhile (\<lambda>r. \<not> is_sentinel r) rows)))"

definition example_row :: "string \<Rightarrow> string \<Rightarrow> string \<Rightarrow> string list" where
  "example_row time volume profit_text =
     [''12345'', time, ''buy'', volume, ''EURUSD'', ''1.1000'', ''0'', ''0'',
      ''2025.06.26 10:00:00'', ''1.1100'', ''0'', ''0'', ''0'', profit_text]"

definition example_document :: "string list list \<Rightarrow> node" where
  "example_document rows =
     Element ''html'' [Element ''body'' [Element ''table'' (map tr rows)]]"

text \<open>
  \<open>t\<close> is the table the parser works on: the first of \<open>tables\<close> whose text contains
  the marker.
\<close>

definition closed_transactions_table :: "node list \<Rightarrow> node \<Rightarrow> bool" where
  "closed_transactions_table tables t =
     (\<exists>pre post. tables = pre @ t # post \<and>
        str_includes (textContent t) ''Closed Transactions:'' \<and>
        (\<forall>x\<in>set pre. \<not> str_includes (textContent x) ''Closed Transactions:''))"

text \<open>The trade records of the accepted rows of a table.\<close>

definition accepted_trades :: "node \<Rightarrow> trade list" where
  "accepted_trades t =
     map row_to_trade (accepted_rows (map cell_texts (getElementsByTagName ''tr'' t)))"

section \<open>The script generator\<close>

text \<open>
  The characters the templates need beside letters: the line feed that ends each line,
  the single quote around a tooltip, the double quote of the header and the backslash of
  the two-character sequence \<open>\n\<close> inside a tooltip.
\<close>

definition newline :: char where "newline = CHR 0x0A"

definition quote :: char where "quote = CHR 0x27"

definition dquote :: char where "dquote = CHR 0x22"

definition backslash :: char where "backslash = CHR 0x5C"

text \<open>
  How the engine prints a number in a template (\<open>`${x}`\<close>) and \<open>x.toFixed(2)\<close> are
  parameters of the generator, held in a record.
\<close>

record printer =
  toString :: "number \<Rightarrow> string"
  toFixed2 :: "number \<Rightarrow> string"

text \<open>\<open>toTimestamp\<close>: a TypeError of \<open>parseMT4DateToUTC\<close> passes through.\<close>

definition toTimestamp :: "string \<Rightarrow> js_error + PineScriptTimestamp" where
  "toTimestamp dateStr =
     (case parseMT4DateToUTC dateStr of
        Inl e \<Rightarrow> Inl e
      | Inr utcDate \<Rightarrow> Inr (convertToPineScriptTimestamp utcDate))"

text \<open>The text \<open>timestamp(y, m, d, h, min)\<close> that every marker and line starts from.\<close>

definition timestamp_call :: "printer \<Rightarrow> PineScriptTimestamp \<Rightarrow> string" where
  "timestamp_call p ts =
     ''timestamp('' @ toString p (year ts) @ '', '' @ toString p (month ts) @ '', '' @
     toString p (day ts) @ '', '' @ toString p (hours ts) @ '', '' @
     toString p (minutes ts) @ '')''"

datatype label_type = winner | breakeven_type | loser

text \<open>The script text of one trade: the body of the \<open>map\<close> in \<open>generateLabels\<close>.\<close>

definition trade_script :: "printer \<Rightarrow> label_type \<Rightarrow> trade \<Rightarrow> js_error + string" where
  "trade_script p ty t =
     (case toTimestamp (openTimeRaw t) of
        Inl e \<Rightarrow> Inl e
      | Inr openTimestamp \<Rightarrow>
          (case ty of
             winner \<Rightarrow>
               (case toTimestamp (closeTimeRaw t) of
                  Inl e \<Rightarrow> Inl e
                | Inr closeTimestamp \<Rightarrow>
                    (let tooltipOpen =
                           ''Ticket: '' @ ticket t @ [backslash] @ ''nOpen: '' @ openTimeRaw t @
                           '' @ '' @ toString p (openPrice t) @ [backslash] @ ''nProfit: '' @
                           toFixed2 p (profit t);
                         tooltipClose =
                           ''Ticket: '' @ ticket t @ [backslash] @ ''nClose: '' @ closeTimeRaw t @
                           '' @ '' @ toString p (closePrice t) @ [backslash] @ ''nProfit: '' @
                           toFixed2 p (profit t)
                     in Inr (
                       ''    label.new('' @ timestamp_call p openTimestamp @ '', '' @
                       toString p (openPrice t) @
                       '', style=label.style_diamond, color=color.new(color.green, 20), textcolor=color.green, size=iconSize, tooltip='' @
                       [quote] @ tooltipOpen @ [quote] @
                       '', xloc=xloc.bar_time, yloc=yloc.price)'' @ [newline] @
                       ''    label.new('' @ timestamp_call p closeTimestamp @ '', '' @
                       toString p (closePrice t) @
                       '', style=label.style_diamond, color=color.new(color.green, 20), textcolor=color.green, size=iconSize, tooltip='' @
                       [quote] @ tooltipClose @ [quote] @
                       '', xloc=xloc.bar_time, yloc=yloc.price)'' @ [newline] @
                       ''    line.new('' @ timestamp_call p openTimestamp @ '', '' @
                       toString p (openPrice t) @ '', '' @
                       timestamp_call p closeTimestamp @ '', '' @
                       toString p (closePrice t) @
                       '', color=color.new(color.white, 20), style=line.style_dotted, width=1, xloc=xloc.bar_time)'' @
                       [newline])))
           | breakeven_type \<Rightarrow>
               (let tooltip =
                      ''Ticket: '' @ ticket t @ [backslash] @ ''nTime: '' @ openTimeRaw t @
                      '' @ '' @ toString p (openPrice t) @ [backslash] @ ''nProfit: '' @
                      toFixed2 p (profit t)
                in Inr (
                  ''    label.new('' @ timestamp_call p openTimestamp @ '', '' @
                  toString p (openPrice t) @
                  '', style=label.style_circle, color=color.new(color.blue, 20), textcolor=color.blue, size=iconSize, tooltip='' @
                  [quote] @ tooltip @ [quote] @
                  '', xloc=xloc.bar_time, yloc=yloc.price)'' @ [newline]))
           | loser \<Rightarrow>
               (let tooltip =
                      ''Ticket: '' @ ticket t @ [backslash] @ ''nTime: '' @ openTimeRaw t @
                      '' @ '' @ toString p (openPrice t) @ [backslash] @ ''nProfit: '' @
                      toFixed2 p (profit t);
                    style = (if type t = ''buy'' then ''label.style_triangleup''
                             else ''label.style_triangledown'')
                in Inr (
                  ''    label.new('' @ timestamp_call p openTimestamp @ '', '' @
                  toString p (openPrice t) @
                  '', style='' @ style @
                  '', color=color.new(color.red, 20), textcolor=color.red, size=iconSize, tooltip='' @
                  [quote] @ tooltip @ [quote] @
                  '', xloc=xloc.bar_time, yloc=yloc.price)'' @ [newline]))))"

text \<open>\<open>generateLabels\<close>: \<open>trades.map(...).join('')\<close>.\<close>

fun generateLabels :: "printer \<Rightarrow> trade list \<Rightarrow> label_type \<Rightarrow> js_error + string" where
  "generateLabels p [] ty = Inr []"
| "generateLabels p (t # ts) ty =
     (case trade_script p ty t of
        Inl e \<Rightarrow> Inl e
      | Inr s \<Rightarrow>
          (case generateLabels p ts ty of
             Inl e \<Rightarrow> Inl e
           | Inr rest \<Rightarrow> Inr (s @ rest)))"

text \<open>The fixed lines of the script before the marker calls.\<close>

definition script_header :: "string \<Rightarrow> string list" where
  "script_header item_name =
     [''//@version=5'',
      ''indicator('' @ [dquote] @ ''MT4 Trades: '' @ toUpperCase item_name @ [dquote] @
        '', overlay=true, scale = scale.right)'',
      '''',
      ''// --- Inputs ---'',
      ''var tamanoIconosStr = input.string('' @ [dquote] @ ''normal'' @ [dquote] @
        '', title='' @ [dquote] @ ''Tamano de Iconos'' @ [dquote] @ '', options=['' @
        [dquote] @ ''tiny'' @ [dquote] @ '', '' @ [dquote] @ ''small'' @ [dquote] @ '', '' @
        [dquote] @ ''normal'' @ [dquote] @ '', '' @ [dquote] @ ''large'' @ [dquote] @ '', '' @
        [dquote] @ ''huge'' @ [dquote] @ ''])'',
      '''',
      ''// --- Functions ---'',
      ''getIconSize(sizeStr) =>'',
      ''    sizeResult = size.normal'',
      ''    if sizeStr == '' @ [dquote] @ ''tiny'' @ [dquote],
      ''        sizeResult := size.tiny'',
      ''    else if sizeStr == '' @ [dquote] @ ''small'' @ [dquote],
      ''        sizeResult := size.small'',
      ''    else if sizeStr == '' @ [dquote] @ ''normal'' @ [dquote],
      ''        sizeResult := size.normal'',
      ''    else if sizeStr == '' @ [dquote] @ ''large'' @ [dquote],
      ''        sizeResult := size.large'',
      ''    else if sizeStr == '' @ [dquote] @ ''huge'' @ [dquote],
      ''        sizeResult := size.huge'',
      ''    sizeResult'',
      '''',
      ''var iconSize = getIconSize(tamanoIconosStr)'',
      ''var drawn = false'',
      '''',
      ''// --- Drawing Logic ---'',
      ''if barstate.islast and not drawn'',
      ''    drawn := true'',
      ''    // Winners'']"

text \<open>Every line ends with a line feed.\<close>

definition unlines :: "string list \<Rightarrow> string" where
  "unlines ls = concat (map (\<lambda>l. l @ [newline]) ls)"

text \<open>\<open>generatePineScript\<close>: the template with the three blocks of marker calls.\<close>

definition generatePineScript :: "printer \<Rightarrow> string \<Rightarrow> group \<Rightarrow> js_error + string" where
  "generatePineScript p item_name data =
     (case generateLabels p (winners data) winner of
        Inl e \<Rightarrow> Inl e
      | Inr w \<Rightarrow>
          (case generateLabels p (breakeven data) breakeven_type of
             Inl e \<Rightarrow> Inl e
           | Inr b \<Rightarrow>
               (case generateLabels p (losers data) loser of
                  Inl e \<Rightarrow> Inl e
                | Inr l \<Rightarrow>
                    Inr (unlines (script_header item_name) @
                         w @ [newline] @ ''    // Break Even'' @ [newline] @
                         b @ [newline] @ ''    // Losers'' @ [newline] @
                         l @ [newline]))))"

text \<open>The lines of a script, and the calls among them.\<close>

definition script_lines :: "string \<Rightarrow> string list" where
  "script_lines s = split_on newline s"

definition label_calls :: "string \<Rightarrow> string list" where
  "label_calls s = filter (prefix ''    label.new('') (script_lines s)"

definition line_calls :: "string \<Rightarrow> string list" where
  "line_calls s = filter (prefix ''    line.new('') (script_lines s)"

text \<open>A text that holds no line feed.\<close>

definition single_line :: "string \<Rightarrow> bool" where
  "single_line s = (newline \<notin> set s)"

section \<open>Notions the properties are stated in\<close>

text \<open>
  None of the definitions of this section is code of the converter: they name what the
  properties speak of (the true open time of a trade, the winners that survive the
  deduplication, all trades of an output, a well-formed timestamp string), and the
  invariants of the loops.
\<close>

text \<open>
  The true open time of a trade: the time value \<open>parseMT4DateToUTC\<close> gives for its
  open-time string, if it gives one. \<open>open_ms\<close> is the sort key.
\<close>

definition true_open_time :: "trade \<Rightarrow> int option" where
  "true_open_time t = (case parseMT4DateToUTC (openTimeRaw t) of Inr (Some ms) \<Rightarrow> Some ms | _ \<Rightarrow> None)"

definition open_ms :: "trade \<Rightarrow> int" where
  "open_ms t = (case true_open_time t of Some ms \<Rightarrow> ms | None \<Rightarrow> 0)"

text \<open>
  The invariant of \<open>grouped\<close>: every instrument has one entry, and none is named like
  a property of \<open>Object.prototype\<close>.
\<close>

definition wf_grouped :: "GroupedTrades \<Rightarrow> bool" where
  "wf_grouped g = (distinct (map fst g) \<and> fst ` set g \<inter> set object_prototype_keys = {})"

text \<open>
  What one iteration of the first loop does to the group of the trade's instrument.
\<close>

definition add_trade :: "number \<Rightarrow> trade \<Rightarrow> group \<Rightarrow> group" where
  "add_trade tol t g =
     (case classify tol t of
        WinnerCandidate \<Rightarrow> g
      | Breakeven \<Rightarrow> push_breakeven t g
      | Loser \<Rightarrow> push_loser t g)"

text \<open>
  What one iteration of the first loop does to \<open>winnersMap\<close>, and the whole loop.
\<close>

definition dedup_step :: "number \<Rightarrow> trade \<Rightarrow> winners_map \<Rightarrow> winners_map" where
  "dedup_step tol t wm =
     (if classify tol t = WinnerCandidate then
        (case map_of wm (dedup_key_of t) of
           None \<Rightarrow> map_set (dedup_key_of t) t wm
         | Some e \<Rightarrow> if num_gt (profit t) (profit e) then map_set (dedup_key_of t) t wm else wm)
      else wm)"

definition dedup :: "number \<Rightarrow> trade list \<Rightarrow> winners_map \<Rightarrow> winners_map" where
  "dedup tol ts wm = foldl (\<lambda>m t. dedup_step tol t m) wm ts"

text \<open>
  The trades of instrument \<open>k\<close> and class \<open>c\<close>, in input order; \<open>extend\<close> is a
  group after the first loop has run over \<open>ts\<close>.
\<close>

definition bucket_of :: "number \<Rightarrow> outcome \<Rightarrow> string \<Rightarrow> trade list \<Rightarrow> trade list" where
  "bucket_of tol c k ts = filter (\<lambda>t. item t = k \<and> classify tol t = c) ts"

definition extend :: "number \<Rightarrow> string \<Rightarrow> trade list \<Rightarrow> group \<Rightarrow> group" where
  "extend tol k ts g =
     \<lparr>winners = winners g,
      breakeven = breakeven g @ bucket_of tol Breakeven k ts,
      losers = losers g @ bucket_of tol Loser k ts\<rparr>"

text \<open>
  The group of an instrument, and \<open>grouped\<close> after the test at the head of the first
  loop.
\<close>

definition group_at :: "GroupedTrades \<Rightarrow> string \<Rightarrow> group" where
  "group_at g k = (case map_of g k of Some x \<Rightarrow> x | None \<Rightarrow> empty_group)"

definition with_group :: "GroupedTrades \<Rightarrow> string \<Rightarrow> GroupedTrades" where
  "with_group g k = (if get_property g k = Undefined then g @ [(k, empty_group)] else g)"

text \<open>
  The winners that survive the deduplication, in the order of \<open>winnersMap\<close>, and the
  group of instrument \<open>k\<close> before it is sorted.
\<close>

definition survivors :: "number \<Rightarrow> trade list \<Rightarrow> trade list" where
  "survivors tol ts = map snd (dedup tol ts [])"

definition grouped_at :: "number \<Rightarrow> trade list \<Rightarrow> string \<Rightarrow> group" where
  "grouped_at tol ts k =
     \<lparr>winners = filter (\<lambda>w. item w = k) (survivors tol ts),
      breakeven = bucket_of tol Breakeven k ts,
      losers = bucket_of tol Loser k ts\<rparr>"

text \<open>
  The winner candidates with deduplication key \<open>k\<close>, and the one of them the first
  loop keeps: \<open>best\<close> runs the replacement rule over them alone.
\<close>

definition cand :: "number \<Rightarrow> dedup_key \<Rightarrow> trade \<Rightarrow> bool" where
  "cand tol k t = (classify tol t = WinnerCandidate \<and> dedup_key_of t = k)"

fun best :: "number \<Rightarrow> dedup_key \<Rightarrow> trade list \<Rightarrow> trade option \<Rightarrow> trade option" where
  "best tol k [] cur = cur"
| "best tol k (t # ts) cur =
     best tol k ts
       (if cand tol k t then
          (case cur of None \<Rightarrow> Some t
           | Some e \<Rightarrow> if num_gt (profit t) (profit e) then Some t else cur)
        else cur)"

text \<open>
  All trades of a group, of an output, and all winners of an output.
\<close>

definition group_trades :: "group \<Rightarrow> trade list" where
  "group_trades b = winners b @ breakeven b @ losers b"

definition all_trades :: "GroupedTrades \<Rightarrow> trade list" where
  "all_trades g = concat (map (group_trades \<circ> snd) g)"

definition all_winners :: "GroupedTrades \<Rightarrow> trade list" where
  "all_winners g = concat (map (winners \<circ> snd) g)"

text \<open>
  \<open>after\<close> is \<open>before\<close> sorted by open time: adjacent trades are in ascending order
  of their open times, and the trades of one open time stand in the order they had.
\<close>

definition sorted_stable :: "trade list \<Rightarrow> trade list \<Rightarrow> bool" where
  "sorted_stable before after =
     ((\<forall>i. Suc i < length after \<longrightarrow> open_ms (after ! i) \<le> open_ms (after ! Suc i)) \<and>
      (\<forall>ms. filter (\<lambda>x. open_ms x = ms) after = filter (\<lambda>x. open_ms x = ms) before))"

text \<open>
  The number of days of month \<open>m\<close> (1 to 12) of year \<open>y\<close>.
\<close>

definition DaysInMonth :: "int \<Rightarrow> int \<Rightarrow> int" where
  "DaysInMonth y m =
     (if m = 2 then (if DaysInYear y = 366 then 29 else 28)
      else if m = 4 \<or> m = 6 \<or> m = 9 \<or> m = 11 then 30 else 31)"

text \<open>
  A string of exactly \<open>n\<close> decimal digits.
\<close>

definition digits :: "nat \<Rightarrow> string \<Rightarrow> bool" where
  "digits n s = (length s = n \<and> list_all is_digit s)"

text \<open>
  The string \<open>YYYY.MM.DD HH:MM:SS\<close> with the six fields given.
\<close>

definition mt4_string :: "string \<Rightarrow> string \<Rightarrow> string \<Rightarrow> string \<Rightarrow> string \<Rightarrow> string \<Rightarrow> string" where
  "mt4_string ys mo ds hs mis ss =
     ys @ ''.'' @ mo @ ''.'' @ ds @ '' '' @ hs @ '':'' @ mis @ '':'' @ ss"

text \<open>
  The UTC calendar fields of a time value, as \<open>convertToPineScriptTimestamp\<close>
  returns them.
\<close>

definition display_fields :: "int \<Rightarrow> PineScriptTimestamp" where
  "display_fields u =
     \<lparr>year = Fin (of_int (YearFromTime u)),
      month = Fin (of_int (MonthFromTime u + 1)),
      day = Fin (of_int (DateFromTime u)),
      hours = Fin (of_int (HourFromTime u)),
      minutes = Fin (of_int (MinFromTime u))\<rparr>"

text \<open>
  The texts the generator copies into a call hold no line feed: the printed numbers, and
  the ticket and the two time strings of a trade.
\<close>

definition printer_single_line :: "printer \<Rightarrow> bool" where
  "printer_single_line p = (\<forall>x. single_line (toString p x) \<and> single_line (toFixed2 p x))"

definition trade_single_line :: "trade \<Rightarrow> bool" where
  "trade_single_line t =
     (single_line (ticket t) \<and> single_line (openTimeRaw t) \<and> single_line (closeTimeRaw t))"

section \<open>Example data\<close>

text \<open>
  A buy trade with the ticket, open time, instrument and profit given.
\<close>

definition example_trade :: "string \<Rightarrow> string \<Rightarrow> string \<Rightarrow> rat \<Rightarrow> trade" where
  "example_trade tk ot it pf =
     \<lparr>ticket = tk, openTimeRaw = ot, type = ''buy'', size' = Fin (1 / 10), item = it,
      openPrice = Fin (11 / 10), closeTimeRaw = ''2025.06.26 10:00:00'',
      closePrice = Fin (111 / 100), profit = Fin pf\<rparr>"

text \<open>
  Seven trades of one instrument, for tolerance 5: two at the boundaries, two winner
  candidates of one open time and price, three losers; and what the classifier returns
  for them.
\<close>

definition example_trades :: "trade list" where
  "example_trades =
     [example_trade ''201'' ''2025.06.25 16:09:01'' ''eurusd'' 5,
      example_trade ''202'' ''2025.06.24 09:30:00'' ''eurusd'' (- 5),
      example_trade ''203'' ''2025.06.25 16:09:01'' ''eurusd'' 50,
      example_trade ''204'' ''2025.06.25 16:09:01'' ''eurusd'' 80,
      example_trade ''205'' ''2025.06.25 16:09:01'' ''eurusd'' (- 6),
      example_trade ''206'' ''2025.06.24 09:30:00'' ''eurusd'' (- 7),
      example_trade ''207'' ''2025.06.24 09:30:00'' ''eurusd'' (- 8)]"

definition example_grouped :: GroupedTrades where
  "example_grouped =
     [(''eurusd'',
       \<lparr>winners = [example_trade ''204'' ''2025.06.25 16:09:01'' ''eurusd'' 80],
        breakeven = [example_trade ''202'' ''2025.06.24 09:30:00'' ''eurusd'' (- 5),
                     example_trade ''201'' ''2025.06.25 16:09:01'' ''eurusd'' 5],
        losers = [example_trade ''206'' ''2025.06.24 09:30:00'' ''eurusd'' (- 7),
                  example_trade ''207'' ''2025.06.24 09:30:00'' ''eurusd'' (- 8),
                  example_trade ''205'' ''2025.06.25 16:09:01'' ''eurusd'' (- 6)]\<rparr>)]"

text \<open>
  Six trades of one instrument, for tolerance 5: winner candidates of profits 50, 80 and
  80 with one open time and open price, a candidate with another open time, a candidate
  with another open price, and a loser; and what the classifier returns for them.
\<close>

definition dedup_example :: "trade list" where
  "dedup_example =
     [example_trade ''301'' ''2025.06.25 16:09:01'' ''eurusd'' 50,
      example_trade ''302'' ''2025.06.25 16:09:01'' ''eurusd'' 80,
      example_trade ''303'' ''2025.06.24 09:30:00'' ''eurusd'' 60,
      (example_trade ''304'' ''2025.06.25 16:09:01'' ''eurusd'' 70)\<lparr>openPrice := Fin (12 / 10)\<rparr>,
      example_trade ''305'' ''2025.06.25 16:09:01'' ''eurusd'' 80,
      example_trade ''306'' ''2025.06.25 16:09:01'' ''eurusd'' (- 6)]"

definition dedup_example_grouped :: GroupedTrades where
  "dedup_example_grouped =
     [(''eurusd'',
       \<lparr>winners = [example_trade ''303'' ''2025.06.24 09:30:00'' ''eurusd'' 60,
                   example_trade ''302'' ''2025.06.25 16:09:01'' ''eurusd'' 80,
                   (example_trade ''304'' ''2025.06.25 16:09:01'' ''eurusd'' 70)
                     \<lparr>openPrice := Fin (12 / 10)\<rparr>],
        breakeven = [],
        losers = [example_trade ''306'' ''2025.06.25 16:09:01'' ''eurusd'' (- 6)]\<rparr>)]"

text \<open>A printer for the examples: integers in decimal, other numbers rounded to a fixed
  number of decimals. It stands in for the engine's printing.\<close>

fun show_nat :: "nat \<Rightarrow> string" where
  "show_nat n =
     (if n < 10 then [char_of (48 + n)]
      else show_nat (n div 10) @ [char_of (48 + n mod 10)])"

declare show_nat.simps [simp del]

definition show_decimal :: "nat \<Rightarrow> rat \<Rightarrow> string" where
  "show_decimal k r =
     (let n = nat \<lfloor>\<bar>r\<bar> * 10 ^ k + 1 / 2\<rfloor>;
          frac = show_nat (n mod 10 ^ k)
      in (if r < 0 then ''-'' else []) @ show_nat (n div 10 ^ k) @ ''.'' @
         replicate (k - length frac) CHR ''0'' @ frac)"

definition example_printer :: printer where
  "example_printer =
     \<lparr>toString = (\<lambda>x. case x of
          NaN \<Rightarrow> ''NaN'' | PosInf \<Rightarrow> ''Infinity'' | NegInf \<Rightarrow> ''-Infinity''
        | Fin r \<Rightarrow> if r = of_int \<lfloor>r\<rfloor>
                   then (if r < 0 then ''-'' else []) @ show_nat (nat \<bar>\<lfloor>r\<rfloor>\<bar>)
                   else show_decimal 5 r),
      toFixed2 = (\<lambda>x. case x of
          NaN \<Rightarrow> ''NaN'' | PosInf \<Rightarrow> ''Infinity'' | NegInf \<Rightarrow> ''-Infinity''
        | Fin r \<Rightarrow> show_decimal 2 r)\<rparr>"

section \<open>The sort of a bucket\<close>

text \<open>
  When every open time is valid the comparator never throws, and the sort is the stable
  sort by open time.
\<close>

lemma compare_valid:
  assumes "true_open_time a = Some x" "true_open_time b = Some y"
  shows "compare_open_time a b = Inr (Fin (of_int (x - y)))"
  using assms
  by (auto simp: compare_open_time_def true_open_time_def getTime_def num_sub_def
      split: sum.splits option.splits)

lemma insert_sorted_valid:
  assumes "true_open_time x \<noteq> None" "\<forall>y\<in>set ys. true_open_time y \<noteq> None"
  shows "insert_sorted x ys = Inr (insort_key open_ms x ys)"
  using assms
proof (induction ys)
  case Nil
  then show ?case by simp
next
  case (Cons y ys)
  from Cons.prems obtain a b where ab: "true_open_time x = Some a" "true_open_time y = Some b"
    by auto
  have "num_gt (Fin (of_int (a - b))) (Fin 0) = (\<not> a \<le> b)"
    by (auto simp: num_gt_def)
  with Cons ab show ?case
    by (simp add: compare_valid open_ms_def)
qed

lemma sort_valid:
  assumes "\<forall>y\<in>set xs. true_open_time y \<noteq> None"
  shows "sort_by_open_time xs = Inr (sort_key open_ms xs)"
  using assms
proof (induction xs)
  case Nil
  then show ?case by simp
next
  case (Cons x xs)
  then show ?case by (simp add: insert_sorted_valid)
qed

lemma insert_sorted_mset: "insert_sorted x ys = Inr r \<Longrightarrow> mset r = add_mset x (mset ys)"
  by (induction ys arbitrary: r) (auto split: sum.splits if_splits)

lemma sort_mset: "sort_by_open_time xs = Inr r \<Longrightarrow> mset r = mset xs"
  by (induction xs arbitrary: r) (auto split: sum.splits dest: insert_sorted_mset)

section \<open>The first loop\<close>

lemma get_property_Own: "(get_property g k = Own x) = (map_of g k = Some x)"
  by (auto simp: get_property_def split: option.splits)

lemma get_property_Undefined:
  "(get_property g k = Undefined) = (map_of g k = None \<and> k \<notin> set object_prototype_keys)"
  by (auto simp: get_property_def split: option.splits)

lemma map_of_map_key:
  "map_of (map (\<lambda>(k', x). if k' = k then (k', f x) else (k', x)) g) k'' =
     (if k'' = k then map_option f (map_of g k'') else map_of g k'')"
  by (induction g) auto

lemma map_fst_map_key:
  "map fst (map (\<lambda>(k', x). if k' = k then (k', f x) else (k', x)) g) = map fst g"
  by (induction g) auto

lemma push_to_Inr:
  assumes "push_to f k g = Inr g'"
  shows "map fst g' = map fst g"
    and "\<exists>x. map_of g k = Some x"
    and "map_of g' k'' = (if k'' = k then map_option f (map_of g k'') else map_of g k'')"
  using assms
  by (auto simp: push_to_def get_property_Own map_of_map_key map_fst_map_key
      split: property.splits)

lemma push_to_Own:
  assumes "map_of g k = Some x"
  shows "\<exists>g'. push_to f k g = Inr g'"
  using assms by (simp add: push_to_def get_property_def)

lemma wf_grouped_keys: "map fst g' = map fst g \<Longrightarrow> wf_grouped g' = wf_grouped g"
  by (metis wf_grouped_def list.set_map)

lemma wf_grouped_proto: "wf_grouped g \<Longrightarrow> k \<in> set object_prototype_keys \<Longrightarrow> map_of g k = None"
  by (auto simp: wf_grouped_def map_of_eq_None_iff)

lemma first_pass_step_eq:
  "first_pass_step tol t (g, wm) =
     (case classify tol t of
        WinnerCandidate \<Rightarrow> Inr (with_group g (item t), dedup_step tol t wm)
      | Breakeven \<Rightarrow>
          (case push_to (push_breakeven t) (item t) (with_group g (item t)) of
             Inl e \<Rightarrow> Inl e | Inr g' \<Rightarrow> Inr (g', dedup_step tol t wm))
      | Loser \<Rightarrow>
          (case push_to (push_loser t) (item t) (with_group g (item t)) of
             Inl e \<Rightarrow> Inl e | Inr g' \<Rightarrow> Inr (g', dedup_step tol t wm)))"
  by (cases "classify tol t")
     (simp_all add: first_pass_step_def dedup_step_def with_group_def Let_def
        split: option.splits sum.splits)

lemma wf_with_group: "wf_grouped g \<Longrightarrow> wf_grouped (with_group g k)"
  by (auto simp: with_group_def wf_grouped_def get_property_Undefined map_of_eq_None_iff)

lemma map_of_with_group:
  assumes "wf_grouped g"
  shows "map_of (with_group g k) k' =
     (if k' = k \<and> k \<notin> set object_prototype_keys then Some (group_at g k') else map_of g k')"
proof (cases "get_property g k = Undefined")
  case True
  then have "map_of g k = None" "k \<notin> set object_prototype_keys"
    by (simp_all add: get_property_Undefined)
  then show ?thesis
    using True by (simp add: with_group_def group_at_def map_add_def split: option.splits)
next
  case False
  then have "with_group g k = g" by (simp add: with_group_def)
  moreover have "map_of g k = Some (group_at g k)" if "k \<notin> set object_prototype_keys"
    using False that by (cases "map_of g k") (simp_all add: get_property_Undefined group_at_def)
  ultimately show ?thesis by simp
qed

lemma first_pass_step_Inr:
  assumes "first_pass_step tol t (g, wm) = Inr (g', wm')" and "wf_grouped g"
  shows "wf_grouped g'"
    and "map_of g' k =
           (if k = item t \<and> k \<notin> set object_prototype_keys
            then Some (add_trade tol t (group_at g k)) else map_of g k)"
    and "classify tol t \<noteq> WinnerCandidate \<Longrightarrow> item t \<notin> set object_prototype_keys"
    and "wm' = dedup_step tol t wm"
proof -
  let ?g1 = "with_group g (item t)"
  have wf1: "wf_grouped ?g1" using assms(2) by (rule wf_with_group)
  note m1 = map_of_with_group[OF assms(2), of "item t"]
  show "wm' = dedup_step tol t wm"
    using assms(1) unfolding first_pass_step_eq
    by (cases "classify tol t") (auto split: sum.splits)
  consider (W) "classify tol t = WinnerCandidate" "g' = ?g1"
    | (P) f where "classify tol t \<noteq> WinnerCandidate" "push_to f (item t) ?g1 = Inr g'"
        "add_trade tol t = f"
    using assms(1) unfolding first_pass_step_eq
    by (cases "classify tol t") (auto split: sum.splits simp: add_trade_def fun_eq_iff)
  then have "wf_grouped g' \<and> map_of g' k =
           (if k = item t \<and> k \<notin> set object_prototype_keys
            then Some (add_trade tol t (group_at g k)) else map_of g k) \<and>
           (classify tol t \<noteq> WinnerCandidate \<longrightarrow> item t \<notin> set object_prototype_keys)"
  proof cases
    case W
    have "map_of ?g1 k = (if k = item t \<and> k \<notin> set object_prototype_keys
            then Some (add_trade tol t (group_at g k)) else map_of g k)"
      unfolding m1 using W(1) by (cases "k = item t") (simp_all add: add_trade_def)
    then show ?thesis using wf1 W by simp
  next
    case P
    from push_to_Inr[OF P(2)] have k: "map fst g' = map fst ?g1"
      and ex: "\<exists>x. map_of ?g1 (item t) = Some x"
      and m: "\<And>k''. map_of g' k'' = (if k'' = item t then map_option f (map_of ?g1 k'') else map_of ?g1 k'')"
      by auto
    have np: "item t \<notin> set object_prototype_keys"
      using ex wf_grouped_proto[OF wf1] by fastforce
    have "wf_grouped g'" using wf_grouped_keys[OF k] wf1 by simp
    then show ?thesis
      using np P(3) by (simp add: m m1)
  qed
  then show "wf_grouped g'"
    and "map_of g' k =
           (if k = item t \<and> k \<notin> set object_prototype_keys
            then Some (add_trade tol t (group_at g k)) else map_of g k)"
    and "classify tol t \<noteq> WinnerCandidate \<Longrightarrow> item t \<notin> set object_prototype_keys"
    by auto
qed

lemma extend_Cons:
  "extend tol k (t # ts) g = extend tol k ts (if item t = k then add_trade tol t g else g)"
  by (cases "classify tol t"; cases "item t = k")
     (simp_all add: extend_def bucket_of_def add_trade_def push_breakeven_def push_loser_def)

lemma extend_Nil: "extend tol k [] g = g"
  by (simp add: extend_def bucket_of_def)

lemma first_pass_Inr:
  assumes "first_pass tol ts (g, wm) = Inr (g', wm')" and "wf_grouped g"
  shows "wf_grouped g' \<and>
         (\<forall>k. map_of g' k =
           (if (k \<in> item ` set ts \<and> k \<notin> set object_prototype_keys) \<or> map_of g k \<noteq> None
            then Some (extend tol k ts (group_at g k)) else None)) \<and>
         (\<forall>t\<in>set ts. classify tol t \<noteq> WinnerCandidate \<longrightarrow> item t \<notin> set object_prototype_keys) \<and>
         wm' = dedup tol ts wm"
  using assms
proof (induction ts arbitrary: g wm)
  case Nil
  then show ?case by (auto simp: extend_Nil dedup_def group_at_def)
next
  case (Cons t ts)
  from Cons.prems(1) obtain g1 wm1 where
    step: "first_pass_step tol t (g, wm) = Inr (g1, wm1)" and
    rest: "first_pass tol ts (g1, wm1) = Inr (g', wm')"
    by (auto split: sum.splits)
  note s = first_pass_step_Inr[OF step Cons.prems(2)]
  note ih = Cons.IH[OF rest s(1)]
  have ih1: "wf_grouped g'" and ih3: "wm' = dedup tol ts wm1"
    and ih4: "\<And>x. x \<in> set ts \<Longrightarrow> classify tol x \<noteq> WinnerCandidate \<Longrightarrow> item x \<notin> set object_prototype_keys"
    and ih2: "\<And>k. map_of g' k = (if (k \<in> item ` set ts \<and> k \<notin> set object_prototype_keys) \<or> map_of g1 k \<noteq> None
            then Some (extend tol k ts (group_at g1 k)) else None)"
    using ih by blast+
  have ga: "group_at g1 k = (if k = item t \<and> k \<notin> set object_prototype_keys
            then add_trade tol t (group_at g k) else group_at g k)" for k
    by (auto simp: group_at_def s(2))
  have "map_of g' k =
           (if (k \<in> item ` set (t # ts) \<and> k \<notin> set object_prototype_keys) \<or> map_of g k \<noteq> None
            then Some (extend tol k (t # ts) (group_at g k)) else None)" for k
  proof (cases "k = item t \<and> k \<notin> set object_prototype_keys")
    case True
    then have kt: "k = item t" and np: "k \<notin> set object_prototype_keys" by blast+
    have "map_of g1 k \<noteq> None" using s(2)[of k] kt np by simp
    moreover have "group_at g1 k = add_trade tol t (group_at g k)" using ga[of k] kt np by simp
    ultimately show ?thesis using kt np by (simp add: ih2 extend_Cons)
  next
    case False
    have e1: "map_of g1 k = map_of g k" using s(2)[of k] False by simp
    have e2: "group_at g1 k = group_at g k" using ga[of k] False by simp
    show ?thesis
    proof (cases "k \<in> set object_prototype_keys")
      case True
      then have "map_of g k = None" using wf_grouped_proto[OF Cons.prems(2)] by blast
      then show ?thesis using True by (simp add: ih2 e1)
    next
      case np: False
      then have ne: "item t \<noteq> k" using False by blast
      then show ?thesis using np by (simp add: ih2 e1 e2 extend_Cons)
    qed
  qed
  moreover have "wm' = dedup tol (t # ts) wm"
    using ih3 s(4) by (simp add: dedup_def)
  moreover have "\<forall>x\<in>set (t # ts). classify tol x \<noteq> WinnerCandidate \<longrightarrow> item x \<notin> set object_prototype_keys"
    using ih4 s(3) by auto
  ultimately show ?case using ih1 by simp
qed

section \<open>The second and the third loop\<close>

lemma second_pass_Inr:
  assumes "second_pass ws g = Inr g'"
  shows "map fst g' = map fst g \<and>
         (\<forall>k. map_of g' k =
            map_option (\<lambda>x. x\<lparr>winners := winners x @ filter (\<lambda>w. item w = k) ws\<rparr>) (map_of g k)) \<and>
         (\<forall>w\<in>set ws. map_of g (item w) \<noteq> None)"
  using assms
proof (induction ws arbitrary: g)
  case Nil
  then show ?case by (simp add: option.map_ident)
next
  case (Cons w ws)
  from Cons.prems obtain g1 where
    p: "push_to (push_winner w) (item w) g = Inr g1" and r: "second_pass ws g1 = Inr g'"
    by (auto split: sum.splits)
  note k1 = push_to_Inr(1)[OF p] and ex = push_to_Inr(2)[OF p] and m1 = push_to_Inr(3)[OF p]
  note ih = Cons.IH[OF r]
  have "map_of g' k =
            map_option (\<lambda>x. x\<lparr>winners := winners x @ filter (\<lambda>w. item w = k) (w # ws)\<rparr>) (map_of g k)" for k
  proof -
    have "map_of g' k = map_option (\<lambda>x. x\<lparr>winners := winners x @ filter (\<lambda>w. item w = k) ws\<rparr>) (map_of g1 k)"
      using ih by blast
    then show ?thesis
      by (cases "k = item w"; cases "map_of g k") (simp_all add: m1 push_winner_def)
  qed
  moreover have "map_of g (item x) \<noteq> None" if "x \<in> set (w # ws)" for x
  proof (cases "x = w")
    case True
    then show ?thesis using ex by auto
  next
    case False
    then have "x \<in> set ws" using that by simp
    then have "map_of g1 (item x) \<noteq> None" using ih by blast
    then show ?thesis by (simp add: m1 split: if_splits)
  qed
  moreover have "map fst g' = map fst g" using ih k1 by simp
  ultimately show ?case by blast
qed

lemma second_pass_total:
  assumes "\<forall>w\<in>set ws. map_of g (item w) \<noteq> None"
  shows "\<exists>g'. second_pass ws g = Inr g'"
  using assms
proof (induction ws arbitrary: g)
  case Nil
  then show ?case by simp
next
  case (Cons w ws)
  then obtain x where "map_of g (item w) = Some x" by auto
  from push_to_Own[OF this] obtain g1 where p: "push_to (push_winner w) (item w) g = Inr g1"
    by blast
  have "\<forall>y\<in>set ws. map_of g1 (item y) \<noteq> None"
    using Cons.prems by (simp add: push_to_Inr(3)[OF p])
  from Cons.IH[OF this] show ?case by (simp add: p)
qed

lemma sort_group_Inr:
  assumes "sort_group a = Inr b"
  shows "mset (winners b) = mset (winners a)"
    and "mset (breakeven b) = mset (breakeven a)"
    and "mset (losers b) = mset (losers a)"
    and "sort_by_open_time (winners a) = Inr (winners b)"
    and "sort_by_open_time (breakeven a) = Inr (breakeven b)"
    and "sort_by_open_time (losers a) = Inr (losers b)"
  using assms by (auto simp: sort_group_def split: sum.splits dest: sort_mset)

lemma third_pass_Inr:
  assumes "third_pass g = Inr g'"
  shows "map fst g' = map fst g \<and>
         (\<forall>k. rel_option (\<lambda>a b. sort_group a = Inr b) (map_of g k) (map_of g' k))"
  using assms
proof (induction g arbitrary: g')
  case Nil
  then show ?case by simp
next
  case (Cons p g)
  obtain k a where p: "p = (k, a)" by (cases p)
  from Cons.prems obtain b rest where
    sg: "sort_group a = Inr b" and r: "third_pass g = Inr rest" and g': "g' = (k, b) # rest"
    by (auto simp: p split: sum.splits)
  from Cons.IH[OF r] show ?case
    by (simp add: p g' sg)
qed

section \<open>The result of the classifier\<close>

lemma wf_grouped_Nil: "wf_grouped []"
  by (simp add: wf_grouped_def)

lemma group_passes_Inr:
  assumes "group_passes ts tol = Inr g"
  shows "wf_grouped g"
    and "map_of g k =
           (if k \<in> item ` set ts \<and> k \<notin> set object_prototype_keys
            then Some (grouped_at tol ts k) else None)"
    and "\<And>w. w \<in> set (survivors tol ts) \<Longrightarrow> item w \<in> item ` set ts \<and> item w \<notin> set object_prototype_keys"
    and "\<And>t. t \<in> set ts \<Longrightarrow> classify tol t \<noteq> WinnerCandidate \<Longrightarrow> item t \<notin> set object_prototype_keys"
proof -
  from assms obtain g1 wm where
    f: "first_pass tol ts ([], []) = Inr (g1, wm)" and
    s: "second_pass (map snd wm) g1 = Inr g"
    by (auto simp: group_passes_def split: sum.splits)
  from first_pass_Inr[OF f wf_grouped_Nil] have
    wf1: "wf_grouped g1" and wm: "wm = dedup tol ts []" and
    np: "\<And>t. t \<in> set ts \<Longrightarrow> classify tol t \<noteq> WinnerCandidate \<Longrightarrow> item t \<notin> set object_prototype_keys" and
    m1: "\<And>k. map_of g1 k = (if k \<in> item ` set ts \<and> k \<notin> set object_prototype_keys
            then Some (extend tol k ts empty_group) else None)"
    by (simp_all add: group_at_def)
  from second_pass_Inr[OF s] have
    k2: "map fst g = map fst g1" and
    m2: "\<And>k. map_of g k =
            map_option (\<lambda>x. x\<lparr>winners := winners x @ filter (\<lambda>w. item w = k) (map snd wm)\<rparr>) (map_of g1 k)" and
    o2: "\<And>w. w \<in> set (map snd wm) \<Longrightarrow> map_of g1 (item w) \<noteq> None"
    by blast+
  show "wf_grouped g" using wf_grouped_keys[OF k2] wf1 by simp
  show "map_of g k =
           (if k \<in> item ` set ts \<and> k \<notin> set object_prototype_keys
            then Some (grouped_at tol ts k) else None)"
    by (simp add: m2 m1 grouped_at_def survivors_def wm extend_def empty_group_def)
  show "item w \<in> item ` set ts \<and> item w \<notin> set object_prototype_keys"
    if "w \<in> set (survivors tol ts)" for w
    using o2[of w] that unfolding survivors_def wm m1 by (simp split: if_splits)
  show "\<And>t. t \<in> set ts \<Longrightarrow> classify tol t \<noteq> WinnerCandidate \<Longrightarrow> item t \<notin> set object_prototype_keys"
    by (rule np)
qed

lemma classifyAndGroupTrades_Inr:
  assumes "classifyAndGroupTrades ts tol = Inr g"
  obtains g0 where "group_passes ts tol = Inr g0" and "third_pass g0 = Inr g"
  using assms by (auto simp: classifyAndGroupTrades_def split: sum.splits)

lemma classified_group:
  assumes "classifyAndGroupTrades ts tol = Inr g" and "map_of g k = Some b"
  shows "k \<in> item ` set ts" and "k \<notin> set object_prototype_keys"
    and "sort_group (grouped_at tol ts k) = Inr b"
proof -
  from assms(1) obtain g0 where g0: "group_passes ts tol = Inr g0" and t: "third_pass g0 = Inr g"
    by (rule classifyAndGroupTrades_Inr)
  from third_pass_Inr[OF t] have "rel_option (\<lambda>a b. sort_group a = Inr b) (map_of g0 k) (map_of g k)"
    by blast
  then obtain a where a: "map_of g0 k = Some a" "sort_group a = Inr b"
    using assms(2) by (cases "map_of g0 k") auto
  from a(1) show "k \<in> item ` set ts" "k \<notin> set object_prototype_keys"
    unfolding group_passes_Inr(2)[OF g0] by (simp_all split: if_splits)
  from a show "sort_group (grouped_at tol ts k) = Inr b"
    unfolding group_passes_Inr(2)[OF g0] by (simp split: if_splits)
qed

lemma classified_keys:
  assumes "classifyAndGroupTrades ts tol = Inr g"
  shows "distinct (map fst g)"
    and "set (map fst g) = item ` set ts - set object_prototype_keys"
proof -
  from assms(1) obtain g0 where g0: "group_passes ts tol = Inr g0" and t: "third_pass g0 = Inr g"
    by (rule classifyAndGroupTrades_Inr)
  have k: "map fst g = map fst g0" using third_pass_Inr[OF t] by blast
  have wf: "wf_grouped g0" by (rule group_passes_Inr(1)[OF g0])
  then show "distinct (map fst g)" by (simp add: k wf_grouped_def)
  have "set (map fst g0) = {k. map_of g0 k \<noteq> None}"
    by (auto simp: map_of_eq_None_iff)
  also have "\<dots> = item ` set ts - set object_prototype_keys"
    unfolding group_passes_Inr(2)[OF g0] by auto
  finally show "set (map fst g) = item ` set ts - set object_prototype_keys"
    by (simp add: k)
qed

section \<open>The winners map\<close>

lemma num_lt_NaN [simp]: "\<not> num_lt NaN b" "\<not> num_lt a NaN"
  by (cases b; simp) (cases a; simp)

lemma num_lt_trans: "num_lt a b \<Longrightarrow> num_lt b c \<Longrightarrow> num_lt a c"
  by (cases a; cases b; cases c) simp_all

lemma num_lt_le_trans: "num_lt a b \<Longrightarrow> num_le b c \<Longrightarrow> num_lt a c"
  by (auto simp: num_le_def intro: num_lt_trans)

lemma num_le_lt_trans: "num_le a b \<Longrightarrow> num_lt b c \<Longrightarrow> num_lt a c"
  by (auto simp: num_le_def intro: num_lt_trans)

lemma num_le_trans: "num_le a b \<Longrightarrow> num_le b c \<Longrightarrow> num_le a c"
  by (auto simp: num_le_def intro: num_lt_trans)

lemma num_le_refl: "a \<noteq> NaN \<Longrightarrow> num_le a a"
  by (simp add: num_le_def)

lemma num_lt_imp_le: "num_lt a b \<Longrightarrow> num_le a b"
  by (cases a; cases b) (simp_all add: num_le_def)

lemma num_not_lt_le: "a \<noteq> NaN \<Longrightarrow> b \<noteq> NaN \<Longrightarrow> \<not> num_lt a b \<Longrightarrow> num_le b a"
  by (cases a; cases b) (auto simp: num_le_def)

lemma num_lt_irrefl: "\<not> num_lt a a"
  by (cases a) simp_all

lemma cand_not_NaN: "cand tol k t \<Longrightarrow> profit t \<noteq> NaN"
  by (auto simp: cand_def classify_def num_gt_def split: if_splits)

lemma map_of_map_set: "map_of (map_set k v m) k' = (if k' = k then Some v else map_of m k')"
proof -
  have "map_of (map (\<lambda>(k', v'). if k' = k then (k', v) else (k', v')) m) k' =
        (if k' = k then map_option (\<lambda>_. v) (map_of m k') else map_of m k')" for m
    by (induction m) auto
  then show ?thesis
    by (cases "map_of m k") (auto simp: map_set_def map_add_def split: option.splits)
qed

lemma keys_map_set:
  "map fst (map_set k v m) = (if map_of m k = None then map fst m @ [k] else map fst m)"
proof -
  have "map fst (map (\<lambda>(k', v'). if k' = k then (k', v) else (k', v')) m) = map fst m"
    by (induction m) auto
  then show ?thesis by (simp add: map_set_def)
qed

lemma distinct_map_set: "distinct (map fst m) \<Longrightarrow> distinct (map fst (map_set k v m))"
  by (auto simp: keys_map_set map_of_eq_None_iff)

lemma map_of_dedup_step:
  "map_of (dedup_step tol t wm) k =
     (if cand tol k t then
        (case map_of wm k of None \<Rightarrow> Some t
         | Some e \<Rightarrow> if num_gt (profit t) (profit e) then Some t else map_of wm k)
      else map_of wm k)"
  by (auto simp: dedup_step_def cand_def map_of_map_set split: option.splits)

lemma distinct_dedup_step: "distinct (map fst wm) \<Longrightarrow> distinct (map fst (dedup_step tol t wm))"
  by (auto simp: dedup_step_def distinct_map_set split: option.splits)

lemma dedup_Cons: "dedup tol (t # ts) wm = dedup tol ts (dedup_step tol t wm)"
  by (simp add: dedup_def)

lemma map_of_dedup: "map_of (dedup tol ts wm) k = best tol k ts (map_of wm k)"
proof (induction ts arbitrary: wm)
  case Nil
  then show ?case by (simp add: dedup_def)
next
  case (Cons t ts)
  show ?case
    unfolding dedup_Cons Cons.IH map_of_dedup_step by simp
qed

lemma distinct_dedup: "distinct (map fst wm) \<Longrightarrow> distinct (map fst (dedup tol ts wm))"
  by (induction ts arbitrary: wm) (simp_all add: dedup_Cons distinct_dedup_step, simp add: dedup_def)

lemma first_max_intro:
  assumes "r = Some w" "xs = pre @ w # post" "cand tol k w"
    "\<forall>c\<in>set pre. cand tol k c \<longrightarrow> num_lt (profit c) (profit w)"
    "\<forall>c\<in>set post. cand tol k c \<longrightarrow> num_le (profit c) (profit w)"
  shows "\<exists>w pre post. r = Some w \<and> xs = pre @ w # post \<and> cand tol k w \<and>
           (\<forall>c\<in>set pre. cand tol k c \<longrightarrow> num_lt (profit c) (profit w)) \<and>
           (\<forall>c\<in>set post. cand tol k c \<longrightarrow> num_le (profit c) (profit w))"
  using assms by blast

lemma best_Some:
  assumes "cand tol k e"
  shows "\<exists>w pre post. best tol k ts (Some e) = Some w \<and> e # ts = pre @ w # post \<and> cand tol k w \<and>
           (\<forall>c\<in>set pre. cand tol k c \<longrightarrow> num_lt (profit c) (profit w)) \<and>
           (\<forall>c\<in>set post. cand tol k c \<longrightarrow> num_le (profit c) (profit w))"
  using assms
proof (induction ts arbitrary: e)
  case Nil
  show ?case
    by (rule first_max_intro[of _ e _ "[]" "[]"]) (use Nil in simp_all)
next
  case (Cons t ts)
  show ?case
  proof (cases "cand tol k t \<and> num_gt (profit t) (profit e)")
    case True
    then have b: "best tol k (t # ts) (Some e) = best tol k ts (Some t)" by simp
    from True Cons.IH[of t] obtain w pre post where
      w: "best tol k ts (Some t) = Some w" "t # ts = pre @ w # post" "cand tol k w"
        "\<forall>c\<in>set pre. cand tol k c \<longrightarrow> num_lt (profit c) (profit w)"
        "\<forall>c\<in>set post. cand tol k c \<longrightarrow> num_le (profit c) (profit w)"
      by blast
    have "num_le (profit t) (profit w)"
    proof (cases pre)
      case Nil
      then have "t = w" using w(2) by simp
      then show ?thesis using cand_not_NaN[OF w(3)] by (simp add: num_le_refl)
    next
      case (Cons a pre')
      then have "t \<in> set pre" using w(2) by simp
      then show ?thesis using w(4) True by (auto intro: num_lt_imp_le)
    qed
    then have "num_lt (profit e) (profit w)"
      using True by (auto simp: num_gt_def intro: num_lt_le_trans)
    then have "\<forall>c\<in>set (e # pre). cand tol k c \<longrightarrow> num_lt (profit c) (profit w)"
      using w(4) by simp
    moreover have "e # t # ts = (e # pre) @ w # post" using w(2) by simp
    ultimately show ?thesis using b w(1,3,5)
      by (intro first_max_intro[of _ w _ "e # pre" post]) simp_all
  next
    case False
    then have b: "best tol k (t # ts) (Some e) = best tol k ts (Some e)" by auto
    from Cons.IH[OF Cons.prems] obtain w pre post where
      w: "best tol k ts (Some e) = Some w" "e # ts = pre @ w # post" "cand tol k w"
        "\<forall>c\<in>set pre. cand tol k c \<longrightarrow> num_lt (profit c) (profit w)"
        "\<forall>c\<in>set post. cand tol k c \<longrightarrow> num_le (profit c) (profit w)"
      by blast
    have te: "num_le (profit t) (profit e)" if "cand tol k t"
      using that False cand_not_NaN[OF that] cand_not_NaN[OF Cons.prems]
      by (auto simp: num_gt_def intro: num_not_lt_le)
    show ?thesis
    proof (cases pre)
      case Nil
      then have ew: "e = w" "post = ts" using w(2) by simp_all
      have "e # t # ts = [] @ w # (t # ts)" using ew by simp
      moreover have "\<forall>c\<in>set (t # ts). cand tol k c \<longrightarrow> num_le (profit c) (profit w)"
        using w(5) te ew by auto
      ultimately show ?thesis using b w(1,3)
        by (intro first_max_intro[of _ w _ "[]" "t # ts"]) simp_all
    next
      case (Cons a pre')
      then have a: "a = e" and ts: "ts = pre' @ w # post" using w(2) by simp_all
      have ew: "num_lt (profit e) (profit w)"
        using w(4) Cons a Cons.prems by simp
      have "e # t # ts = (e # t # pre') @ w # post" using ts by simp
      moreover have "\<forall>c\<in>set (e # t # pre'). cand tol k c \<longrightarrow> num_lt (profit c) (profit w)"
        using w(4) Cons a te ew by (auto intro: num_le_lt_trans)
      ultimately show ?thesis using b w(1,3,5)
        by (intro first_max_intro[of _ w _ "e # t # pre'" post]) simp_all
    qed
  qed
qed

lemma best_None:
  "(\<forall>c\<in>set ts. \<not> cand tol k c) \<and> best tol k ts None = None \<or>
   (\<exists>w pre post. best tol k ts None = Some w \<and> ts = pre @ w # post \<and> cand tol k w \<and>
           (\<forall>c\<in>set pre. cand tol k c \<longrightarrow> num_lt (profit c) (profit w)) \<and>
           (\<forall>c\<in>set post. cand tol k c \<longrightarrow> num_le (profit c) (profit w)))"
proof (induction ts)
  case Nil
  then show ?case by simp
next
  case (Cons t ts)
  show ?case
  proof (cases "cand tol k t")
    case True
    then have b: "best tol k (t # ts) None = best tol k ts (Some t)" by simp
    from best_Some[OF True, of ts] show ?thesis unfolding b by blast
  next
    case False
    then have b: "best tol k (t # ts) None = best tol k ts None" by simp
    from Cons.IH show ?thesis
    proof
      assume "(\<forall>c\<in>set ts. \<not> cand tol k c) \<and> best tol k ts None = None"
      then show ?thesis using False b by simp
    next
      assume "\<exists>w pre post. best tol k ts None = Some w \<and> ts = pre @ w # post \<and> cand tol k w \<and>
           (\<forall>c\<in>set pre. cand tol k c \<longrightarrow> num_lt (profit c) (profit w)) \<and>
           (\<forall>c\<in>set post. cand tol k c \<longrightarrow> num_le (profit c) (profit w))"
      then obtain w pre post where
        w: "best tol k ts None = Some w" "ts = pre @ w # post" "cand tol k w"
        "\<forall>c\<in>set pre. cand tol k c \<longrightarrow> num_lt (profit c) (profit w)"
        "\<forall>c\<in>set post. cand tol k c \<longrightarrow> num_le (profit c) (profit w)"
        by blast
      have "t # ts = (t # pre) @ w # post" using w(2) by simp
      moreover have "\<forall>c\<in>set (t # pre). cand tol k c \<longrightarrow> num_lt (profit c) (profit w)"
        using w(4) False by simp
      ultimately have "\<exists>w pre post. best tol k (t # ts) None = Some w \<and> t # ts = pre @ w # post \<and> cand tol k w \<and>
           (\<forall>c\<in>set pre. cand tol k c \<longrightarrow> num_lt (profit c) (profit w)) \<and>
           (\<forall>c\<in>set post. cand tol k c \<longrightarrow> num_le (profit c) (profit w))"
        using b w(1,3,5)
        by (intro first_max_intro[of _ w _ "t # pre" post]) simp_all
      then show ?thesis by blast
    qed
  qed
qed

section \<open>The buckets as multisets\<close>

lemma filter_split_key:
  "k \<notin> A \<Longrightarrow> mset (filter (\<lambda>w. f w = k) S) + mset (filter (\<lambda>w. f w \<in> A) S) =
     mset (filter (\<lambda>w. f w \<in> insert k A) S)"
  by (induction S) auto

lemma concat_buckets:
  assumes "distinct (map fst g)"
    and "\<And>k b. (k, b) \<in> set g \<Longrightarrow> mset (f b) = mset (filter (\<lambda>w. item w = k) S)"
  shows "mset (concat (map (f \<circ> snd) g)) = mset (filter (\<lambda>w. item w \<in> fst ` set g) S)"
  using assms
proof (induction g)
  case Nil
  then show ?case by simp
next
  case (Cons p g)
  obtain k b where p: "p = (k, b)" by (cases p)
  have k: "k \<notin> fst ` set g" using Cons.prems(1) by (simp add: p)
  have "mset (concat (map (f \<circ> snd) g)) = mset (filter (\<lambda>w. item w \<in> fst ` set g) S)"
    using Cons.prems by (intro Cons.IH) simp_all
  moreover have "mset (f b) = mset (filter (\<lambda>w. item w = k) S)"
    using Cons.prems(2)[of k b] by (simp add: p)
  ultimately show ?case
    using filter_split_key[OF k, of item S] by (simp add: p comp_def)
qed

lemma filter_all: "(\<And>x. x \<in> set S \<Longrightarrow> P x) \<Longrightarrow> filter P S = S"
  by (induction S) auto

lemma mset_all_trades:
  "mset (all_trades g) =
     mset (concat (map (winners \<circ> snd) g)) + mset (concat (map (breakeven \<circ> snd) g)) +
     mset (concat (map (losers \<circ> snd) g))"
  by (induction g) (auto simp: all_trades_def group_trades_def)

lemma classified_buckets:
  assumes "classifyAndGroupTrades ts tol = Inr g" and "(k, b) \<in> set g"
  shows "mset (winners b) = mset (filter (\<lambda>w. item w = k) (survivors tol ts))"
    and "mset (breakeven b) = mset (filter (\<lambda>w. item w = k) (filter (\<lambda>t. classify tol t = Breakeven) ts))"
    and "mset (losers b) = mset (filter (\<lambda>w. item w = k) (filter (\<lambda>t. classify tol t = Loser) ts))"
    and "sort_group (grouped_at tol ts k) = Inr b"
proof -
  have "map_of g k = Some b"
    using classified_keys(1)[OF assms(1)] assms(2) by simp
  from classified_group(3)[OF assms(1) this] show sg: "sort_group (grouped_at tol ts k) = Inr b" .
  from sort_group_Inr(1-3)[OF sg]
  show "mset (winners b) = mset (filter (\<lambda>w. item w = k) (survivors tol ts))"
    and "mset (breakeven b) = mset (filter (\<lambda>w. item w = k) (filter (\<lambda>t. classify tol t = Breakeven) ts))"
    and "mset (losers b) = mset (filter (\<lambda>w. item w = k) (filter (\<lambda>t. classify tol t = Loser) ts))"
    by (simp_all add: grouped_at_def bucket_of_def conj_commute)
qed

lemma classified_all:
  assumes "classifyAndGroupTrades ts tol = Inr g"
  shows "mset (all_winners g) = mset (survivors tol ts)"
    and "mset (concat (map (breakeven \<circ> snd) g)) = mset (filter (\<lambda>t. classify tol t = Breakeven) ts)"
    and "mset (concat (map (losers \<circ> snd) g)) = mset (filter (\<lambda>t. classify tol t = Loser) ts)"
proof -
  from assms(1) obtain g0 where g0: "group_passes ts tol = Inr g0" and t: "third_pass g0 = Inr g"
    by (rule classifyAndGroupTrades_Inr)
  note d = classified_keys(1)[OF assms] and ks = classified_keys(2)[OF assms]
  have ks': "fst ` set g = item ` set ts - set object_prototype_keys"
    using ks by simp
  have "mset (all_winners g) = mset (filter (\<lambda>w. item w \<in> fst ` set g) (survivors tol ts))"
    unfolding all_winners_def
    by (rule concat_buckets[OF d]) (rule classified_buckets(1)[OF assms])
  also have "filter (\<lambda>w. item w \<in> fst ` set g) (survivors tol ts) = survivors tol ts"
    by (rule filter_all) (use group_passes_Inr(3)[OF g0] ks' in blast)
  finally show "mset (all_winners g) = mset (survivors tol ts)" .
  have "mset (concat (map (breakeven \<circ> snd) g)) =
      mset (filter (\<lambda>w. item w \<in> fst ` set g) (filter (\<lambda>t. classify tol t = Breakeven) ts))"
    by (rule concat_buckets[OF d]) (rule classified_buckets(2)[OF assms])
  also have "filter (\<lambda>w. item w \<in> fst ` set g) (filter (\<lambda>t. classify tol t = Breakeven) ts) =
      filter (\<lambda>t. classify tol t = Breakeven) ts"
    by (rule filter_all) (use group_passes_Inr(4)[OF g0] ks' in auto)
  finally show "mset (concat (map (breakeven \<circ> snd) g)) = mset (filter (\<lambda>t. classify tol t = Breakeven) ts)" .
  have "mset (concat (map (losers \<circ> snd) g)) =
      mset (filter (\<lambda>w. item w \<in> fst ` set g) (filter (\<lambda>t. classify tol t = Loser) ts))"
    by (rule concat_buckets[OF d]) (rule classified_buckets(3)[OF assms])
  also have "filter (\<lambda>w. item w \<in> fst ` set g) (filter (\<lambda>t. classify tol t = Loser) ts) =
      filter (\<lambda>t. classify tol t = Loser) ts"
    by (rule filter_all) (use group_passes_Inr(4)[OF g0] ks' in auto)
  finally show "mset (concat (map (losers \<circ> snd) g)) = mset (filter (\<lambda>t. classify tol t = Loser) ts)" .
qed

text \<open>The winners map: keys are distinct and every value carries its key.\<close>

lemma dedup_entries:
  assumes "(k, w) \<in> set (dedup tol ts [])"
  shows "best tol k ts None = Some w" and "cand tol k w" and "w \<in> set ts"
proof -
  have "distinct (map fst (dedup tol ts []))" by (rule distinct_dedup) simp
  then have "map_of (dedup tol ts []) k = Some w" using assms by simp
  then show b: "best tol k ts None = Some w" by (simp add: map_of_dedup)
  from best_None[of ts tol k] b show "cand tol k w" "w \<in> set ts" by auto
qed

lemma survivors_filter_key:
  "filter (\<lambda>y. dedup_key_of y = k) (survivors tol ts) =
     (case best tol k ts None of None \<Rightarrow> [] | Some w \<Rightarrow> [w])"
proof -
  have d: "distinct (map fst (dedup tol ts []))" by (rule distinct_dedup) simp
  have key: "\<And>p. p \<in> set (dedup tol ts []) \<Longrightarrow> dedup_key_of (snd p) = fst p"
    using dedup_entries(2) by (auto simp: cand_def)
  have gen: "distinct (map fst m) \<Longrightarrow> (\<And>p. p \<in> set m \<Longrightarrow> dedup_key_of (snd p) = fst p) \<Longrightarrow>
      filter (\<lambda>y. dedup_key_of y = k) (map snd m) =
        (case map_of m k of None \<Rightarrow> [] | Some w \<Rightarrow> [w])" for m :: winners_map
  proof (induction m)
    case Nil
    then show ?case by simp
  next
    case (Cons p m)
    obtain k' v where p: "p = (k', v)" by (cases p)
    have kv: "dedup_key_of v = k'" using Cons.prems(2)[of p] by (simp add: p)
    have ih: "filter (\<lambda>y. dedup_key_of y = k) (map snd m) =
        (case map_of m k of None \<Rightarrow> [] | Some w \<Rightarrow> [w])"
      using Cons by simp
    show ?case
    proof (cases "k' = k")
      case True
      then have "map_of m k = None" using Cons.prems(1) by (simp add: p map_of_eq_None_iff)
      then show ?thesis using True kv ih by (simp add: p)
    next
      case False
      then show ?thesis using kv ih by (simp add: p)
    qed
  qed
  show ?thesis unfolding survivors_def using gen[OF d key] by (simp add: map_of_dedup)
qed

lemma survivors_distinct: "distinct (survivors tol ts)"
proof -
  have d: "distinct (map fst (dedup tol ts []))" by (rule distinct_dedup) simp
  have key: "\<And>p. p \<in> set (dedup tol ts []) \<Longrightarrow> dedup_key_of (snd p) = fst p"
    using dedup_entries(2) by (auto simp: cand_def)
  have "map fst (dedup tol ts []) = map dedup_key_of (survivors tol ts)"
    unfolding survivors_def using key by (simp add: comp_def)
  then show ?thesis using d by (metis distinct_map)
qed

lemma survivors_subset: "set (survivors tol ts) \<subseteq> {t \<in> set ts. classify tol t = WinnerCandidate}"
  using dedup_entries(2,3) by (fastforce simp: survivors_def cand_def)

section \<open>Partition and deduplication\<close>

text \<open>
  The winner that survives for the key of a candidate \<open>x\<close>: the first candidate of
  the greatest profit among those with the key of \<open>x\<close>.
\<close>

lemma surviving_winner:
  assumes "classifyAndGroupTrades ts tol = Inr g"
    and "x \<in> set ts" and "classify tol x = WinnerCandidate"
  shows "\<exists>w pre post.
           ts = pre @ w # post \<and>
           classify tol w = WinnerCandidate \<and> dedup_key_of w = dedup_key_of x \<and>
           (\<forall>c\<in>set pre. classify tol c = WinnerCandidate \<and> dedup_key_of c = dedup_key_of x
                \<longrightarrow> num_lt (profit c) (profit w)) \<and>
           (\<forall>c\<in>set post. classify tol c = WinnerCandidate \<and> dedup_key_of c = dedup_key_of x
                \<longrightarrow> num_le (profit c) (profit w)) \<and>
           filter (\<lambda>y. dedup_key_of y = dedup_key_of x) (all_winners g) = [w] \<and>
           (\<exists>b. map_of g (item w) = Some b \<and> w \<in> set (winners b))"
proof -
  let ?k = "dedup_key_of x"
  have c: "cand tol ?k x" using assms(2,3) by (simp add: cand_def)
  from best_None[of ts tol ?k] c assms(2) obtain w pre post where
    w: "best tol ?k ts None = Some w" "ts = pre @ w # post" "cand tol ?k w"
       "\<forall>c\<in>set pre. cand tol ?k c \<longrightarrow> num_lt (profit c) (profit w)"
       "\<forall>c\<in>set post. cand tol ?k c \<longrightarrow> num_le (profit c) (profit w)"
    by blast
  have sf: "filter (\<lambda>y. dedup_key_of y = ?k) (survivors tol ts) = [w]"
    unfolding survivors_filter_key w(1) by simp
  have "mset (filter (\<lambda>y. dedup_key_of y = ?k) (all_winners g)) =
        mset (filter (\<lambda>y. dedup_key_of y = ?k) (survivors tol ts))"
    using classified_all(1)[OF assms(1)] by (metis mset_filter)
  moreover have "mset [w] = {#w#}" by simp
  ultimately have one: "filter (\<lambda>y. dedup_key_of y = ?k) (all_winners g) = [w]"
    unfolding sf by (metis mset_single_iff)
  then have "w \<in> set (all_winners g)"
    by (metis filter_is_subset list.set_intros(1) subsetD)
  then obtain k b where kb: "(k, b) \<in> set g" "w \<in> set (winners b)"
    by (auto simp: all_winners_def)
  have "set (winners b) = set (filter (\<lambda>w. item w = k) (survivors tol ts))"
    using classified_buckets(1)[OF assms(1) kb(1)] by (rule mset_eq_setD)
  then have "item w = k" using kb(2) by simp
  moreover have "map_of g k = Some b"
    using classified_keys(1)[OF assms(1)] kb(1) by simp
  ultimately have grp: "\<exists>b. map_of g (item w) = Some b \<and> w \<in> set (winners b)"
    using kb(2) by blast
  show ?thesis
    using w(2-5) one grp unfolding cand_def
    by (intro exI[of _ w] exI[of _ pre] exI[of _ post]) simp
qed

text \<open>
  Claim C1, as far as the deduplication of winners lets it hold. When
  \<open>classifyAndGroupTrades\<close> returns, every instrument has one group; a trade in a
  bucket is an input trade of the group's instrument and of the bucket's class, so no
  trade is in two buckets; the buckets together hold no trade more often than the input;
  every input trade that is no winner candidate is in the output as often as in the
  input. A winner candidate whose open time and open price no other winner candidate
  shares is in the output exactly once, in the winners bucket of its instrument. A
  winner candidate that shares its open time and open price with candidates of its own
  instrument only is represented in the winners bucket of its instrument: of all
  winners of the output exactly one has its open time and open price, that one is in
  this bucket, and its profit is at least the candidate's. The candidate itself may
  then be absent. Nothing is said of winner candidates that share open time and open
  price across two instruments.
\<close>

theorem partition_corrected:
  assumes "classifyAndGroupTrades ts tol = Inr g"
  shows "distinct (map fst g) \<and>
         (\<forall>(k, b) \<in> set g.
            (\<forall>x\<in>set (winners b). x \<in> set ts \<and> item x = k \<and> classify tol x = WinnerCandidate) \<and>
            (\<forall>x\<in>set (breakeven b). x \<in> set ts \<and> item x = k \<and> classify tol x = Breakeven) \<and>
            (\<forall>x\<in>set (losers b). x \<in> set ts \<and> item x = k \<and> classify tol x = Loser)) \<and>
         mset (all_trades g) \<subseteq># mset ts \<and>
         (\<forall>x. classify tol x \<noteq> WinnerCandidate \<longrightarrow>
              count (mset (all_trades g)) x = count (mset ts) x) \<and>
         (\<forall>x\<in>set ts. classify tol x = WinnerCandidate \<and>
              (\<forall>c\<in>set ts. classify tol c = WinnerCandidate \<and>
                   openTimeRaw c = openTimeRaw x \<and> openPrice c = openPrice x \<longrightarrow> c = x) \<longrightarrow>
            count (mset (all_trades g)) x = 1 \<and>
            (\<exists>b. map_of g (item x) = Some b \<and> x \<in> set (winners b))) \<and>
         (\<forall>x\<in>set ts. classify tol x = WinnerCandidate \<and>
              (\<forall>c\<in>set ts. classify tol c = WinnerCandidate \<and>
                   openTimeRaw c = openTimeRaw x \<and> openPrice c = openPrice x \<longrightarrow>
                   item c = item x) \<longrightarrow>
            (\<exists>b w. map_of g (item x) = Some b \<and> w \<in> set (winners b) \<and>
               filter (\<lambda>y. openTimeRaw y = openTimeRaw x \<and> openPrice y = openPrice x)
                 (all_winners g) = [w] \<and>
               num_le (profit x) (profit w)))"
proof -
  note all = classified_all[OF assms]
  have d: "distinct (map fst g)" by (rule classified_keys(1)[OF assms])
  have buckets: "(\<forall>x\<in>set (winners b). x \<in> set ts \<and> item x = k \<and> classify tol x = WinnerCandidate) \<and>
            (\<forall>x\<in>set (breakeven b). x \<in> set ts \<and> item x = k \<and> classify tol x = Breakeven) \<and>
            (\<forall>x\<in>set (losers b). x \<in> set ts \<and> item x = k \<and> classify tol x = Loser)"
    if "(k, b) \<in> set g" for k b
  proof -
    note cb = classified_buckets(1-3)[OF assms that]
    have "set (winners b) = set (filter (\<lambda>w. item w = k) (survivors tol ts))"
      using cb(1) by (rule mset_eq_setD)
    moreover have "set (breakeven b) = set (filter (\<lambda>w. item w = k) (filter (\<lambda>t. classify tol t = Breakeven) ts))"
      using cb(2) by (rule mset_eq_setD)
    moreover have "set (losers b) = set (filter (\<lambda>w. item w = k) (filter (\<lambda>t. classify tol t = Loser) ts))"
      using cb(3) by (rule mset_eq_setD)
    ultimately show ?thesis using survivors_subset[of tol ts] by auto
  qed
  have surv: "mset (survivors tol ts) \<subseteq># mset (filter (\<lambda>t. classify tol t = WinnerCandidate) ts)"
  proof (rule mset_subset_eqI)
    fix a
    show "count (mset (survivors tol ts)) a \<le> count (mset (filter (\<lambda>t. classify tol t = WinnerCandidate) ts)) a"
    proof (cases "a \<in> set (survivors tol ts)")
      case True
      then have "count (mset (survivors tol ts)) a = 1"
        using survivors_distinct[of tol ts] by (simp add: distinct_count_atmost_1)
      moreover have "a \<in> set (filter (\<lambda>t. classify tol t = WinnerCandidate) ts)"
        using True survivors_subset[of tol ts] by auto
      then have "1 \<le> count (mset (filter (\<lambda>t. classify tol t = WinnerCandidate) ts)) a"
        by (metis count_greater_eq_one_iff set_mset_mset)
      ultimately show ?thesis by simp
    next
      case False
      then have "count (mset (survivors tol ts)) a = 0" by simp
      then show ?thesis by (simp only: le0)
    qed
  qed
  have split: "mset ts = mset (filter (\<lambda>t. classify tol t = WinnerCandidate) ts) +
      mset (filter (\<lambda>t. classify tol t = Breakeven) ts) + mset (filter (\<lambda>t. classify tol t = Loser) ts)"
  proof (induction ts)
    case Nil
    then show ?case by simp
  next
    case (Cons t ts)
    then show ?case by (cases "classify tol t") simp_all
  qed
  have at: "mset (all_trades g) = mset (survivors tol ts) +
      mset (filter (\<lambda>t. classify tol t = Breakeven) ts) + mset (filter (\<lambda>t. classify tol t = Loser) ts)"
    unfolding mset_all_trades all(2,3) all(1)[unfolded all_winners_def] ..
  have sub: "mset (all_trades g) \<subseteq># mset ts"
    unfolding at using surv by (subst split) (simp add: subset_mset.add_mono)
  have nonw: "count (mset (all_trades g)) x = count (mset ts) x" if "classify tol x \<noteq> WinnerCandidate" for x
  proof -
    have "x \<notin> set (survivors tol ts)" using that survivors_subset[of tol ts] by auto
    then have "count (mset (survivors tol ts)) x = 0" by (simp add: count_eq_zero_iff)
    moreover have "count (mset (filter (\<lambda>t. classify tol t = WinnerCandidate) ts)) x = 0"
      using that by (simp add: count_eq_zero_iff)
    ultimately show ?thesis unfolding at by (subst split) simp
  qed
  have key: "(dedup_key_of c = dedup_key_of x) =
      (openTimeRaw c = openTimeRaw x \<and> openPrice c = openPrice x)" for c x
    by (simp add: dedup_key_of_def)
  have win: "\<exists>b w. map_of g (item x) = Some b \<and> w \<in> set (winners b) \<and>
               filter (\<lambda>y. openTimeRaw y = openTimeRaw x \<and> openPrice y = openPrice x)
                 (all_winners g) = [w] \<and>
               num_le (profit x) (profit w)"
    if x: "x \<in> set ts" "classify tol x = WinnerCandidate"
      and scoped: "\<forall>c\<in>set ts. classify tol c = WinnerCandidate \<and>
                   openTimeRaw c = openTimeRaw x \<and> openPrice c = openPrice x \<longrightarrow>
                   item c = item x" for x
  proof -
    from surviving_winner[OF assms x] obtain w pre post where
      w: "ts = pre @ w # post" "classify tol w = WinnerCandidate"
        "dedup_key_of w = dedup_key_of x"
        "\<forall>c\<in>set pre. classify tol c = WinnerCandidate \<and> dedup_key_of c = dedup_key_of x
                \<longrightarrow> num_lt (profit c) (profit w)"
        "\<forall>c\<in>set post. classify tol c = WinnerCandidate \<and> dedup_key_of c = dedup_key_of x
                \<longrightarrow> num_le (profit c) (profit w)"
        "filter (\<lambda>y. dedup_key_of y = dedup_key_of x) (all_winners g) = [w]"
        and "\<exists>b. map_of g (item w) = Some b \<and> w \<in> set (winners b)"
      by blast
    then obtain b where b: "map_of g (item w) = Some b" "w \<in> set (winners b)" by blast
    have "w \<in> set ts" using w(1) by simp
    then have iw: "item w = item x" using scoped w(2,3) unfolding key by blast
    have c: "cand tol (dedup_key_of x) x" using x by (simp add: cand_def)
    have le: "num_le (profit x) (profit w)"
    proof -
      from x(1) w(1) consider "x \<in> set pre" | "x = w" | "x \<in> set post" by auto
      then show ?thesis
      proof cases
        case 1 then show ?thesis using w(4) x(2) by (auto intro: num_lt_imp_le)
      next
        case 2 then show ?thesis using cand_not_NaN[OF c] by (simp add: num_le_refl)
      next
        case 3 then show ?thesis using w(5) x(2) by auto
      qed
    qed
    have "filter (\<lambda>y. openTimeRaw y = openTimeRaw x \<and> openPrice y = openPrice x)
                 (all_winners g) = [w]"
      using w(6) unfolding key .
    then show ?thesis using b le unfolding iw by blast
  qed
  have solo: "count (mset (all_trades g)) x = 1 \<and>
            (\<exists>b. map_of g (item x) = Some b \<and> x \<in> set (winners b))"
    if x: "x \<in> set ts" "classify tol x = WinnerCandidate"
      and alone: "\<forall>c\<in>set ts. classify tol c = WinnerCandidate \<and>
                   openTimeRaw c = openTimeRaw x \<and> openPrice c = openPrice x \<longrightarrow> c = x" for x
  proof -
    from surviving_winner[OF assms x] obtain w pre post where
      w: "ts = pre @ w # post" "classify tol w = WinnerCandidate"
        "dedup_key_of w = dedup_key_of x"
        and "filter (\<lambda>y. dedup_key_of y = dedup_key_of x) (all_winners g) = [w]"
        and g: "\<exists>b. map_of g (item w) = Some b \<and> w \<in> set (winners b)"
      by blast
    have "w \<in> set ts" using w(1) by simp
    then have wx: "w = x" using alone w(2,3) unfolding key by blast
    then obtain b where b: "map_of g (item x) = Some b" "x \<in> set (winners b)"
      using g by blast
    then have "(item x, b) \<in> set g" by (auto dest: map_of_SomeD)
    then have "x \<in> set (all_winners g)" using b(2) by (force simp: all_winners_def)
    then have "x \<in> set (survivors tol ts)"
      using all(1) by (metis mset_eq_setD)
    then have "count (mset (survivors tol ts)) x = 1"
      using survivors_distinct[of tol ts] by (simp add: distinct_count_atmost_1)
    moreover have "count (mset (filter (\<lambda>t. classify tol t = Breakeven) ts)) x = 0"
      "count (mset (filter (\<lambda>t. classify tol t = Loser) ts)) x = 0"
      using x(2) by (simp_all add: count_eq_zero_iff)
    ultimately have "count (mset (all_trades g)) x = 1" unfolding at by simp
    then show ?thesis using b by blast
  qed
  show ?thesis
  proof (intro conjI)
    show "distinct (map fst g)" by (rule d)
    show "\<forall>(k, b) \<in> set g.
            (\<forall>x\<in>set (winners b). x \<in> set ts \<and> item x = k \<and> classify tol x = WinnerCandidate) \<and>
            (\<forall>x\<in>set (breakeven b). x \<in> set ts \<and> item x = k \<and> classify tol x = Breakeven) \<and>
            (\<forall>x\<in>set (losers b). x \<in> set ts \<and> item x = k \<and> classify tol x = Loser)"
      using buckets by blast
    show "mset (all_trades g) \<subseteq># mset ts" by (rule sub)
    show "\<forall>x. classify tol x \<noteq> WinnerCandidate \<longrightarrow>
              count (mset (all_trades g)) x = count (mset ts) x"
      using nonw by blast
    show "\<forall>x\<in>set ts. classify tol x = WinnerCandidate \<and>
              (\<forall>c\<in>set ts. classify tol c = WinnerCandidate \<and>
                   openTimeRaw c = openTimeRaw x \<and> openPrice c = openPrice x \<longrightarrow> c = x) \<longrightarrow>
            count (mset (all_trades g)) x = 1 \<and>
            (\<exists>b. map_of g (item x) = Some b \<and> x \<in> set (winners b))"
      using solo by blast
    show "\<forall>x\<in>set ts. classify tol x = WinnerCandidate \<and>
              (\<forall>c\<in>set ts. classify tol c = WinnerCandidate \<and>
                   openTimeRaw c = openTimeRaw x \<and> openPrice c = openPrice x \<longrightarrow>
                   item c = item x) \<longrightarrow>
            (\<exists>b w. map_of g (item x) = Some b \<and> w \<in> set (winners b) \<and>
               filter (\<lambda>y. openTimeRaw y = openTimeRaw x \<and> openPrice y = openPrice x)
                 (all_winners g) = [w] \<and>
               num_le (profit x) (profit w))"
      using win by blast
  qed
qed

text \<open>
  Claim C4. Let \<open>classifyAndGroupTrades\<close> return \<open>g\<close>, and let \<open>x\<close> be a winner
  candidate of the input. The input splits as \<open>pre @ w # post\<close> where \<open>w\<close> is a winner
  candidate with the \<open>openTimeRaw\<close> and the \<open>openPrice\<close> of \<open>x\<close>, every such
  candidate before \<open>w\<close> has a strictly smaller profit and every one after \<open>w\<close> has at
  most the profit of \<open>w\<close>: \<open>w\<close> is the first candidate of the greatest profit. Of all
  winners of the output exactly \<open>w\<close> has this open time and open price, and \<open>w\<close> is
  in the winners bucket of its instrument.
\<close>

theorem winner_dedup:
  assumes "classifyAndGroupTrades ts tol = Inr g"
    and "x \<in> set ts" and "classify tol x = WinnerCandidate"
  shows "\<exists>w pre post.
           ts = pre @ w # post \<and>
           classify tol w = WinnerCandidate \<and>
           openTimeRaw w = openTimeRaw x \<and> openPrice w = openPrice x \<and>
           (\<forall>c\<in>set pre. classify tol c = WinnerCandidate \<and>
                openTimeRaw c = openTimeRaw x \<and> openPrice c = openPrice x
                \<longrightarrow> num_lt (profit c) (profit w)) \<and>
           (\<forall>c\<in>set post. classify tol c = WinnerCandidate \<and>
                openTimeRaw c = openTimeRaw x \<and> openPrice c = openPrice x
                \<longrightarrow> num_le (profit c) (profit w)) \<and>
           filter (\<lambda>y. openTimeRaw y = openTimeRaw x \<and> openPrice y = openPrice x)
             (all_winners g) = [w] \<and>
           (\<exists>b. map_of g (item w) = Some b \<and> w \<in> set (winners b))"
proof -
  have key: "(dedup_key_of c = dedup_key_of x) =
      (openTimeRaw c = openTimeRaw x \<and> openPrice c = openPrice x)" for c
    by (simp add: dedup_key_of_def)
  from surviving_winner[OF assms] obtain w pre post where
    w: "ts = pre @ w # post" "classify tol w = WinnerCandidate"
      "dedup_key_of w = dedup_key_of x"
      "\<forall>c\<in>set pre. classify tol c = WinnerCandidate \<and> dedup_key_of c = dedup_key_of x
                \<longrightarrow> num_lt (profit c) (profit w)"
      "\<forall>c\<in>set post. classify tol c = WinnerCandidate \<and> dedup_key_of c = dedup_key_of x
                \<longrightarrow> num_le (profit c) (profit w)"
      "filter (\<lambda>y. dedup_key_of y = dedup_key_of x) (all_winners g) = [w]"
      "\<exists>b. map_of g (item w) = Some b \<and> w \<in> set (winners b)"
    by blast
  show ?thesis
    using w unfolding key
    by (intro exI[of _ w] exI[of _ pre] exI[of _ post]) simp
qed

section \<open>Order within a bucket, and the classes\<close>

lemma sort_sorted_stable:
  assumes "sort_by_open_time xs = Inr ys" and "\<forall>x\<in>set xs. true_open_time x \<noteq> None"
  shows "sorted_stable xs ys"
proof -
  have ys: "ys = sort_key open_ms xs" using sort_valid[OF assms(2)] assms(1) by simp
  have "sorted (map open_ms ys)" unfolding ys by (rule sorted_sort_key)
  then have "\<forall>i. Suc i < length ys \<longrightarrow> open_ms (ys ! i) \<le> open_ms (ys ! Suc i)"
    by (auto simp: sorted_iff_nth_Suc)
  moreover have "filter (\<lambda>x. open_ms x = ms) ys = filter (\<lambda>x. open_ms x = ms) xs" for ms
    unfolding ys by (rule sort_key_stable)
  ultimately show ?thesis by (simp add: sorted_stable_def)
qed

text \<open>
  Claim C9. Let \<open>classifyAndGroupTrades\<close> return \<open>g\<close> on trades whose open times are
  all valid. Every bucket of \<open>g\<close> is the bucket the first two loops built for that
  instrument, sorted by open time: adjacent trades are in ascending order of their true
  open times, and trades of equal open time keep the order they had in that bucket.
\<close>

theorem buckets_sorted:
  assumes "classifyAndGroupTrades ts tol = Inr g"
    and "\<forall>t\<in>set ts. true_open_time t \<noteq> None"
    and "(k, b) \<in> set g"
  shows "\<exists>g0 a. group_passes ts tol = Inr g0 \<and> map_of g0 k = Some a \<and>
           sorted_stable (winners a) (winners b) \<and>
           sorted_stable (breakeven a) (breakeven b) \<and>
           sorted_stable (losers a) (losers b)"
proof -
  from assms(1) obtain g0 where g0: "group_passes ts tol = Inr g0" and t: "third_pass g0 = Inr g"
    by (rule classifyAndGroupTrades_Inr)
  let ?a = "grouped_at tol ts k"
  have mk: "map_of g k = Some b" using classified_keys(1)[OF assms(1)] assms(3) by simp
  have a: "map_of g0 k = Some ?a"
    using classified_group(1,2)[OF assms(1) mk] by (simp add: group_passes_Inr(2)[OF g0])
  note sg = classified_buckets(4)[OF assms(1,3)]
  have v: "\<forall>x\<in>set (winners ?a). true_open_time x \<noteq> None"
    "\<forall>x\<in>set (breakeven ?a). true_open_time x \<noteq> None"
    "\<forall>x\<in>set (losers ?a). true_open_time x \<noteq> None"
    using assms(2) survivors_subset[of tol ts] by (auto simp: grouped_at_def bucket_of_def)
  have "sorted_stable (winners ?a) (winners b)"
    by (rule sort_sorted_stable[OF sort_group_Inr(4)[OF sg] v(1)])
  moreover have "sorted_stable (breakeven ?a) (breakeven b)"
    by (rule sort_sorted_stable[OF sort_group_Inr(5)[OF sg] v(2)])
  moreover have "sorted_stable (losers ?a) (losers b)"
    by (rule sort_sorted_stable[OF sort_group_Inr(6)[OF sg] v(3)])
  ultimately show ?thesis using g0 a by blast
qed

lemma classify_cases:
  assumes "num_le (Fin 0) tol" and "profit t \<noteq> NaN"
  shows "(classify tol t = WinnerCandidate) = num_gt (profit t) tol"
    and "(classify tol t = Breakeven) = (num_le (num_neg tol) (profit t) \<and> num_le (profit t) tol)"
    and "(classify tol t = Loser) = num_lt (profit t) (num_neg tol)"
  using assms
  by (cases tol; cases "profit t"; auto simp: classify_def num_gt_def num_ge_def num_le_def)+

text \<open>
  For a tolerance \<open>\<tau> \<ge> 0\<close> and a trade of decimal profit \<open>x\<close>: the trade is a
  winner candidate iff \<open>x > \<tau>\<close>, break-even iff \<open>-\<tau> \<le> x \<le> \<tau>\<close>, a loser iff
  \<open>x < -\<tau>\<close>; when \<open>classifyAndGroupTrades\<close> returns, the trade is in the
  break-even bucket of its instrument iff \<open>-\<tau> \<le> x \<le> \<tau>\<close>, in the losers bucket iff
  \<open>x < -\<tau>\<close>, and among the winners only if \<open>x > \<tau>\<close>. A profit of exactly \<open>\<tau>\<close>
  or \<open>-\<tau>\<close> is break-even.
\<close>

lemma classification_decimal:
  assumes "tol = Fin \<tau>" and "0 \<le> \<tau>" and "profit t = Fin x"
    and "classifyAndGroupTrades ts tol = Inr g" and "t \<in> set ts"
  shows "((classify tol t = WinnerCandidate) = (\<tau> < x)) \<and>
         ((classify tol t = Breakeven) = (- \<tau> \<le> x \<and> x \<le> \<tau>)) \<and>
         ((classify tol t = Loser) = (x < - \<tau>)) \<and>
         ((\<exists>b. map_of g (item t) = Some b \<and> t \<in> set (breakeven b)) = (- \<tau> \<le> x \<and> x \<le> \<tau>)) \<and>
         ((\<exists>b. map_of g (item t) = Some b \<and> t \<in> set (losers b)) = (x < - \<tau>)) \<and>
         (t \<in> set (all_winners g) \<longrightarrow> \<tau> < x)"
proof -
  have h: "num_le (Fin 0) tol" "profit t \<noteq> NaN"
    using assms(1-3) by (auto simp: num_le_def)
  have c: "(classify tol t = WinnerCandidate) = (\<tau> < x)"
    "(classify tol t = Breakeven) = (- \<tau> \<le> x \<and> x \<le> \<tau>)"
    "(classify tol t = Loser) = (x < - \<tau>)"
    using assms(1-3) classify_cases[OF h]
    by (auto simp: num_gt_def num_le_def)
  have d: "distinct (map fst g)" by (rule classified_keys(1)[OF assms(4)])
  from assms(4) obtain g0 where g0: "group_passes ts tol = Inr g0"
    by (rule classifyAndGroupTrades_Inr)
  have ex: "\<exists>b. map_of g (item t) = Some b" if "classify tol t \<noteq> WinnerCandidate"
  proof -
    have "item t \<notin> set object_prototype_keys"
      using group_passes_Inr(4)[OF g0 assms(5) that] .
    then have "item t \<in> set (map fst g)"
      using classified_keys(2)[OF assms(4)] assms(5) by simp
    then show ?thesis by (metis map_of_eq_None_iff not_None_eq list.set_map)
  qed
  have be: "(\<exists>b. map_of g (item t) = Some b \<and> t \<in> set (breakeven b)) = (classify tol t = Breakeven)"
  proof
    assume "\<exists>b. map_of g (item t) = Some b \<and> t \<in> set (breakeven b)"
    then obtain b where b: "(item t, b) \<in> set g" "t \<in> set (breakeven b)"
      by (auto dest: map_of_SomeD)
    have "set (breakeven b) = set (filter (\<lambda>w. item w = item t) (filter (\<lambda>t. classify tol t = Breakeven) ts))"
      using classified_buckets(2)[OF assms(4) b(1)] by (rule mset_eq_setD)
    then show "classify tol t = Breakeven" using b(2) by simp
  next
    assume cl: "classify tol t = Breakeven"
    then obtain b where b: "map_of g (item t) = Some b" using ex by auto
    then have "(item t, b) \<in> set g" by (rule map_of_SomeD)
    from classified_buckets(2)[OF assms(4) this]
    have "set (breakeven b) = set (filter (\<lambda>w. item w = item t) (filter (\<lambda>t. classify tol t = Breakeven) ts))"
      by (rule mset_eq_setD)
    then have "t \<in> set (breakeven b)" using cl assms(5) by simp
    then show "\<exists>b. map_of g (item t) = Some b \<and> t \<in> set (breakeven b)" using b by blast
  qed
  have lo: "(\<exists>b. map_of g (item t) = Some b \<and> t \<in> set (losers b)) = (classify tol t = Loser)"
  proof
    assume "\<exists>b. map_of g (item t) = Some b \<and> t \<in> set (losers b)"
    then obtain b where b: "(item t, b) \<in> set g" "t \<in> set (losers b)"
      by (auto dest: map_of_SomeD)
    have "set (losers b) = set (filter (\<lambda>w. item w = item t) (filter (\<lambda>t. classify tol t = Loser) ts))"
      using classified_buckets(3)[OF assms(4) b(1)] by (rule mset_eq_setD)
    then show "classify tol t = Loser" using b(2) by simp
  next
    assume cl: "classify tol t = Loser"
    then obtain b where b: "map_of g (item t) = Some b" using ex by auto
    then have "(item t, b) \<in> set g" by (rule map_of_SomeD)
    from classified_buckets(3)[OF assms(4) this]
    have "set (losers b) = set (filter (\<lambda>w. item w = item t) (filter (\<lambda>t. classify tol t = Loser) ts))"
      by (rule mset_eq_setD)
    then have "t \<in> set (losers b)" using cl assms(5) by simp
    then show "\<exists>b. map_of g (item t) = Some b \<and> t \<in> set (losers b)" using b by blast
  qed
  have wi: "classify tol t = WinnerCandidate" if "t \<in> set (all_winners g)"
  proof -
    have "t \<in> set (survivors tol ts)"
      using that classified_all(1)[OF assms(4)] by (metis mset_eq_setD)
    then show ?thesis using survivors_subset[of tol ts] by auto
  qed
  show ?thesis using c be lo wi by simp
qed

subsection \<open>The classifier returns\<close>

text \<open>
  \<open>classifyAndGroupTrades\<close> returns a grouping when no instrument is named like a
  property of \<open>Object.prototype\<close> and every open time is valid.
\<close>

lemma first_pass_returns:
  assumes "wf_grouped g" and "\<forall>t\<in>set ts. item t \<notin> set object_prototype_keys"
  shows "\<exists>st. first_pass tol ts (g, wm) = Inr st"
  using assms
proof (induction ts arbitrary: g wm)
  case Nil
  then show ?case by simp
next
  case (Cons t ts)
  have np: "item t \<notin> set object_prototype_keys" using Cons.prems(2) by simp
  have "map_of (with_group g (item t)) (item t) = Some (group_at g (item t))"
    using map_of_with_group[OF Cons.prems(1), of "item t" "item t"] np by simp
  from push_to_Own[OF this]
  have "\<exists>g'. push_to f (item t) (with_group g (item t)) = Inr g'" for f by blast
  then have "\<exists>g1 wm1. first_pass_step tol t (g, wm) = Inr (g1, wm1)"
    unfolding first_pass_step_eq
    by (cases "classify tol t") (auto split: sum.splits, (metis sum.simps(4))+)
  then obtain g1 wm1 where s: "first_pass_step tol t (g, wm) = Inr (g1, wm1)" by blast
  have "wf_grouped g1" by (rule first_pass_step_Inr(1)[OF s Cons.prems(1)])
  from Cons.IH[OF this, of wm1] Cons.prems(2) show ?case by (simp add: s)
qed

lemma sort_group_returns:
  assumes "\<forall>x\<in>set (group_trades a). true_open_time x \<noteq> None"
  shows "\<exists>b. sort_group a = Inr b"
  using assms by (simp add: sort_group_def group_trades_def sort_valid ball_Un)

lemma third_pass_returns:
  assumes "\<forall>(k, a)\<in>set g. \<exists>b. sort_group a = Inr b"
  shows "\<exists>g'. third_pass g = Inr g'"
  using assms by (induction g) (auto split: sum.splits)

lemma classifyAndGroupTrades_returns:
  assumes "\<forall>t\<in>set ts. item t \<notin> set object_prototype_keys"
    and "\<forall>t\<in>set ts. true_open_time t \<noteq> None"
  shows "\<exists>g. classifyAndGroupTrades ts tol = Inr g"
proof -
  from first_pass_returns[OF wf_grouped_Nil assms(1), of tol "[]"] obtain g1 wm where
    f: "first_pass tol ts ([], []) = Inr (g1, wm)" by auto
  note fp = first_pass_Inr[OF f wf_grouped_Nil]
  have wm: "wm = dedup tol ts []" using fp by simp
  have "\<forall>w\<in>set (map snd wm). map_of g1 (item w) \<noteq> None"
  proof
    fix w assume "w \<in> set (map snd wm)"
    then have "w \<in> set ts" using survivors_subset[of tol ts] by (auto simp: survivors_def wm)
    then have "item w \<in> item ` set ts \<and> item w \<notin> set object_prototype_keys"
      using assms(1) by simp
    then show "map_of g1 (item w) \<noteq> None" using fp by simp
  qed
  from second_pass_total[OF this] obtain g0 where s: "second_pass (map snd wm) g1 = Inr g0"
    by blast
  have g0: "group_passes ts tol = Inr g0" by (simp add: group_passes_def f s)
  have "\<forall>(k, a)\<in>set g0. \<exists>b. sort_group a = Inr b"
  proof (clarify)
    fix k a assume "(k, a) \<in> set g0"
    then have "map_of g0 k = Some a"
      using group_passes_Inr(1)[OF g0] by (simp add: wf_grouped_def)
    then have a: "a = grouped_at tol ts k"
      unfolding group_passes_Inr(2)[OF g0] by (simp split: if_splits)
    have "\<forall>x\<in>set (group_trades a). true_open_time x \<noteq> None"
      using assms(2) survivors_subset[of tol ts]
      by (auto simp: a group_trades_def grouped_at_def bucket_of_def)
    then show "\<exists>b. sort_group a = Inr b" by (rule sort_group_returns)
  qed
  from third_pass_returns[OF this] obtain g where "third_pass g0 = Inr g" by blast
  then show ?thesis by (simp add: classifyAndGroupTrades_def g0)
qed

section \<open>The calendar\<close>

text \<open>
  \<open>YearFromDay\<close> finds the year of a day: \<open>DayFromYear\<close> is strictly increasing, and
  the estimate is off by at most one year.
\<close>

lemma div_bounds:
  fixes a n :: int
  assumes "0 < n"
  shows "n * (a div n) \<le> a" and "a < n * (a div n) + n"
proof -
  have "a = n * (a div n) + a mod n" by simp
  moreover have "0 \<le> a mod n" "a mod n < n" using assms by simp_all
  ultimately show "n * (a div n) \<le> a" and "a < n * (a div n) + n" by linarith+
qed

lemma div_add1:
  fixes a n :: int
  assumes "0 < n"
  shows "(a + 1) div n = a div n + (if (a + 1) mod n = 0 then 1 else 0)"
proof (cases "a mod n + 1 = n")
  case True
  have "a + 1 = n * (a div n + 1) + 0"
    using True by (metis add.assoc add.right_neutral distrib_left mult.right_neutral mult_div_mod_eq)
  then have "(a + 1) div n = a div n + 1" "(a + 1) mod n = 0"
    using assms by (metis int_div_pos_eq order_refl, metis int_mod_pos_eq order_refl)
  then show ?thesis by simp
next
  case False
  have r: "0 \<le> a mod n + 1" "a mod n + 1 < n"
    using assms False pos_mod_bound[of n a] pos_mod_sign[of n a] by linarith+
  have "a + 1 = n * (a div n) + (a mod n + 1)" by simp
  then have "(a + 1) div n = a div n" "(a + 1) mod n = a mod n + 1"
    using r by (metis int_div_pos_eq, metis int_mod_pos_eq)
  moreover have "a mod n + 1 \<noteq> 0" using pos_mod_sign[of n a] assms by linarith
  ultimately show ?thesis by simp
qed

lemma div_bounds_4: "4 * ((a::int) div 4) \<le> a" "a \<le> 4 * (a div 4) + 3"
  using div_bounds[of 4 a] by simp_all

lemma div_bounds_100: "100 * ((a::int) div 100) \<le> a" "a \<le> 100 * (a div 100) + 99"
  using div_bounds[of 100 a] by simp_all

lemma div_bounds_400: "400 * ((a::int) div 400) \<le> a" "a \<le> 400 * (a div 400) + 399"
  using div_bounds[of 400 a] by simp_all

lemma DayFromYear_est:
  shows "146097 * (y - 1970) - 506 \<le> 400 * DayFromYear y"
    and "400 * DayFromYear y \<le> 146097 * (y - 1970) + 589"
proof -
  define p where "p = (y - 1969) div 4"
  define q where "q = (y - 1901) div 100"
  define r where "r = (y - 1601) div 400"
  have D: "DayFromYear y = 365 * (y - 1970) + p - q + r"
    by (simp add: DayFromYear_def p_def q_def r_def)
  have b: "4 * p \<le> y - 1969" "y - 1969 \<le> 4 * p + 3" "100 * q \<le> y - 1901" "y - 1901 \<le> 100 * q + 99"
    "400 * r \<le> y - 1601" "y - 1601 \<le> 400 * r + 399"
    unfolding p_def q_def r_def by (rule div_bounds_4 div_bounds_100 div_bounds_400)+
  have l: "100 * y - 197200 \<le> 400 * p" "400 * q \<le> 4 * y - 7604" "y - 2000 \<le> 400 * r"
    using b(2,3,6) by simp_all
  have u: "400 * p \<le> 100 * y - 196900" "4 * y - 8000 \<le> 400 * q" "400 * r \<le> y - 1601"
    using b(1,4,5) by simp_all
  show "146097 * (y - 1970) - 506 \<le> 400 * DayFromYear y" unfolding D using l by simp
  show "400 * DayFromYear y \<le> 146097 * (y - 1970) + 589" unfolding D using u by simp
qed

lemma mod_shift: "((y::int) - n * k) mod n = y mod n"
  by (metis mod_mult_self1 diff_add_cancel mult.commute)

lemma DayFromYear_Suc: "DayFromYear (y + 1) = DayFromYear y + DaysInYear y"
proof -
  have m4: "(y - 1969 + 1) mod 4 = y mod 4"
    using mod_shift[of y 4 492] by simp
  have m100: "(y - 1901 + 1) mod 100 = y mod 100"
    using mod_shift[of y 100 19] by simp
  have m400: "(y - 1601 + 1) mod 400 = y mod 400"
    using mod_shift[of y 400 4] by simp
  have p: "(y - 1968) div 4 = (y - 1969) div 4 + (if y mod 4 = 0 then 1 else 0)"
    using div_add1[of 4 "y - 1969"] m4 by simp
  have q: "(y - 1900) div 100 = (y - 1901) div 100 + (if y mod 100 = 0 then 1 else 0)"
    using div_add1[of 100 "y - 1901"] m100 by simp
  have r: "(y - 1600) div 400 = (y - 1601) div 400 + (if y mod 400 = 0 then 1 else 0)"
    using div_add1[of 400 "y - 1601"] m400 by simp
  have i1: "y mod 100 = 0 \<Longrightarrow> y mod 4 = 0"
    using mod_mod_cancel[of 4 100 y] by simp
  have i2: "y mod 400 = 0 \<Longrightarrow> y mod 100 = 0"
    using mod_mod_cancel[of 100 400 y] by simp
  have "DayFromYear (y + 1) = 365 * (y - 1969) + (y - 1968) div 4 - (y - 1900) div 100 + (y - 1600) div 400"
    by (simp add: DayFromYear_def)
  also have "\<dots> = DayFromYear y + DaysInYear y"
    unfolding p q r DayFromYear_def DaysInYear_def using i1 i2 by auto
  finally show ?thesis .
qed

lemma DayFromYear_mono_strict: "y < z \<Longrightarrow> DayFromYear y < DayFromYear z"
proof -
  have "DayFromYear y < DayFromYear (y + 1 + int k)" for k
  proof (induction k)
    case 0
    then show ?case using DayFromYear_Suc[of y] by (simp add: DaysInYear_def)
  next
    case (Suc k)
    have "DayFromYear (y + 1 + int (Suc k)) = DayFromYear (y + 1 + int k) + DaysInYear (y + 1 + int k)"
      using DayFromYear_Suc[of "y + 1 + int k"] by (simp add: add.commute add.left_commute)
    then show ?case using Suc by (simp add: DaysInYear_def)
  qed
  moreover assume "y < z"
  then have "z = y + 1 + int (nat (z - y - 1))" by simp
  ultimately show ?thesis by metis
qed

lemma YearFromDay_spec:
  "DayFromYear (YearFromDay d) \<le> d \<and> d < DayFromYear (YearFromDay d + 1)"
proof -
  define y0 where "y0 = 1970 + (400 * d) div 146097"
  have e: "146097 * (y0 - 1970) \<le> 400 * d" "400 * d \<le> 146097 * (y0 - 1970) + 146096"
    using div_bounds[of 146097 "400 * d"] by (simp_all add: y0_def)
  note est = DayFromYear_est
  have "400 * DayFromYear (y0 - 1) \<le> 400 * d"
    using est(2)[of "y0 - 1"] e(1) by simp
  then have lo: "DayFromYear (y0 - 1) \<le> d" by simp
  have "400 * d < 400 * DayFromYear (y0 + 2)"
    using est(1)[of "y0 + 2"] e(2) by simp
  then have hi: "d < DayFromYear (y0 + 2)" by simp
  have Y: "YearFromDay d = (if d < DayFromYear y0 then y0 - 1
      else if DayFromYear (y0 + 1) \<le> d then y0 + 1 else y0)"
    by (simp add: YearFromDay_def y0_def Let_def)
  show ?thesis
  proof (cases "d < DayFromYear y0")
    case True
    then have "YearFromDay d = y0 - 1" unfolding Y by simp
    then show ?thesis using lo True by simp
  next
    case False
    show ?thesis
    proof (cases "DayFromYear (y0 + 1) \<le> d")
      case True
      then have y: "YearFromDay d = y0 + 1" unfolding Y using False by simp
      have "y0 + 1 + 1 = y0 + 2" by simp
      then have "d < DayFromYear (y0 + 1 + 1)" using hi by (simp only:)
      then show ?thesis unfolding y using True by (rule conjI[rotated])
    next
      case F2: False
      then have "YearFromDay d = y0" unfolding Y using False by simp
      then show ?thesis using F2 False by simp
    qed
  qed
qed

lemma YearFromDay_unique:
  assumes "DayFromYear y \<le> d" and "d < DayFromYear (y + 1)"
  shows "YearFromDay d = y"
proof -
  let ?z = "YearFromDay d"
  note s = YearFromDay_spec[of d]
  have "\<not> ?z < y"
  proof
    assume "?z < y"
    then have "?z + 1 \<le> y" by simp
    then have "DayFromYear (?z + 1) \<le> DayFromYear y"
      using DayFromYear_mono_strict[of "?z + 1" y] by (cases "?z + 1 = y") auto
    then show False using s assms by linarith
  qed
  moreover have "\<not> y < ?z"
  proof
    assume "y < ?z"
    then have "y + 1 \<le> ?z" by simp
    then have "DayFromYear (y + 1) \<le> DayFromYear ?z"
      using DayFromYear_mono_strict[of "y + 1" ?z] by (cases "y + 1 = ?z") auto
    then show False using s assms by linarith
  qed
  ultimately show ?thesis by simp
qed

lemma mixed_radix:
  fixes t :: int
  assumes "t = 1000 * u + a" "u = 60 * v + b" "v = 60 * w + c" "w = 24 * d + e"
  shows "t = d * 86400000 + e * 3600000 + c * 60000 + b * 1000 + a"
  using assms by simp

lemma time_decomp:
  "t = Day t * msPerDay + HourFromTime t * msPerHour + MinFromTime t * msPerMinute +
       SecFromTime t * msPerSecond + msFromTime t"
proof -
  define u where "u = t div 1000"
  define v where "v = t div 60000"
  define w where "w = t div 3600000"
  define d where "d = t div 86400000"
  have v: "v = u div 60" unfolding u_def v_def using zdiv_zmult2_eq[of 60 t 1000] by simp
  have w: "w = v div 60" unfolding w_def v_def using zdiv_zmult2_eq[of 60 t 60000] by simp
  have d: "d = w div 24" unfolding w_def d_def using zdiv_zmult2_eq[of 24 t 3600000] by simp
  have 1: "t = 1000 * u + t mod 1000" unfolding u_def by simp
  have 2: "u = 60 * v + u mod 60" unfolding v by simp
  have 3: "v = 60 * w + v mod 60" unfolding w by simp
  have 4: "w = 24 * d + w mod 24" unfolding d by simp
  have main: "t = d * 86400000 + (w mod 24) * 3600000 + (v mod 60) * 60000 + (u mod 60) * 1000 + t mod 1000"
    using 1 2 3 4 by (rule mixed_radix)
  have e: "Day t = d" "HourFromTime t = w mod 24" "MinFromTime t = v mod 60"
    "SecFromTime t = u mod 60" "msFromTime t = t mod 1000"
    unfolding Day_def HourFromTime_def MinFromTime_def SecFromTime_def msFromTime_def
      msPerDay_def msPerHour_def msPerMinute_def msPerSecond_def u_def v_def w_def d_def
    by (rule refl)+
  show ?thesis
    unfolding e msPerDay_def msPerHour_def msPerMinute_def msPerSecond_def by (rule main)
qed

lemma trunc_of_int [simp]: "trunc (of_int z) = z"
  by (simp add: trunc_def)

lemma to_int_of_int [simp]: "to_int (Fin (of_int z)) = Some z"
  by (simp add: to_int_def)

lemma setUTCHours_shift:
  "setUTCHours (Some t) (Fin (of_int (HourFromTime t + n))) = TimeClip (t + n * msPerHour)"
proof -
  have "MakeDate (Day t) (MakeTime (HourFromTime t + n) (MinFromTime t) (SecFromTime t) (msFromTime t)) =
        (Day t * msPerDay + HourFromTime t * msPerHour + MinFromTime t * msPerMinute +
       SecFromTime t * msPerSecond + msFromTime t) + n * msPerHour"
    by (simp add: MakeDate_def MakeTime_def algebra_simps)
  also have "\<dots> = t + n * msPerHour" using time_decomp[of t] by simp
  finally show ?thesis by (simp only: setUTCHours_def option.case to_int_of_int)
qed

lemma fields_of_MakeDate:
  assumes "0 \<le> h" "h < 24" "0 \<le> mi" "mi < 60" "0 \<le> s" "s < 60" "0 \<le> ms" "ms < 1000"
    and t_def: "t = MakeDate dd (MakeTime h mi s ms)"
  shows "Day t = dd" and "HourFromTime t = h" and "MinFromTime t = mi"
    and "SecFromTime t = s" and "msFromTime t = ms"
proof -
  have t: "t = dd * 86400000 + h * 3600000 + mi * 60000 + s * 1000 + ms"
    by (simp add: t_def MakeDate_def MakeTime_def msPerDay_def msPerHour_def msPerMinute_def msPerSecond_def)
  have "t = 86400000 * dd + (h * 3600000 + mi * 60000 + s * 1000 + ms)" using t by simp
  moreover have "0 \<le> h * 3600000 + mi * 60000 + s * 1000 + ms" "h * 3600000 + mi * 60000 + s * 1000 + ms < 86400000"
    using assms(1-8) by linarith+
  ultimately show "Day t = dd" unfolding Day_def msPerDay_def by (rule int_div_pos_eq)
  have "t = 3600000 * (24 * dd + h) + (mi * 60000 + s * 1000 + ms)" using t by simp
  moreover have "0 \<le> mi * 60000 + s * 1000 + ms" "mi * 60000 + s * 1000 + ms < 3600000"
    using assms(1-8) by linarith+
  ultimately have "t div 3600000 = 24 * dd + h" by (rule int_div_pos_eq)
  then have "t div 3600000 mod 24 = h" using assms(1,2) by (rule int_mod_pos_eq)
  then show "HourFromTime t = h" by (simp add: HourFromTime_def msPerHour_def)
  have "t = 60000 * (60 * (24 * dd + h) + mi) + (s * 1000 + ms)" using t by simp
  moreover have "0 \<le> s * 1000 + ms" "s * 1000 + ms < 60000"
    using assms(1-8) by linarith+
  ultimately have "t div 60000 = 60 * (24 * dd + h) + mi" by (rule int_div_pos_eq)
  then have "t div 60000 mod 60 = mi" using assms(3,4) by (rule int_mod_pos_eq)
  then show "MinFromTime t = mi" by (simp add: MinFromTime_def msPerMinute_def)
  have t4: "t = 1000 * (60 * (60 * (24 * dd + h) + mi) + s) + ms" using t by simp
  then have "t div 1000 = 60 * (60 * (24 * dd + h) + mi) + s"
    using assms(7,8) by (rule int_div_pos_eq)
  then have "t div 1000 mod 60 = s" using assms(5,6) by (rule int_mod_pos_eq)
  then show "SecFromTime t = s" by (simp add: SecFromTime_def msPerSecond_def)
  have "t mod 1000 = ms" using t4 assms(7,8) by (rule int_mod_pos_eq)
  then show "msFromTime t = ms" by (simp add: msFromTime_def msPerSecond_def)
qed

lemma month_cases:
  fixes m :: int
  assumes "1 \<le> m" "m \<le> 12"
  obtains "m = 1" | "m = 2" | "m = 3" | "m = 4" | "m = 5" | "m = 6"
    | "m = 7" | "m = 8" | "m = 9" | "m = 10" | "m = 11" | "m = 12"
proof -
  have "m = 1 \<or> m = 2 \<or> m = 3 \<or> m = 4 \<or> m = 5 \<or> m = 6 \<or>
        m = 7 \<or> m = 8 \<or> m = 9 \<or> m = 10 \<or> m = 11 \<or> m = 12"
    using assms by presburger
  then show ?thesis using that by blast
qed

lemma calendar_of_MakeDay:
  assumes "1 \<le> m" "m \<le> 12" "1 \<le> d" "d \<le> DaysInMonth y m"
    and "Day t = MakeDay y (m - 1) d"
  shows "YearFromTime t = y" and "MonthFromTime t = m - 1" and "DateFromTime t = d"
proof -
  let ?l = "DaysInYear y = 366"
  have md: "MakeDay y (m - 1) d = DayFromYear y + month_start ?l (m - 1) + d - 1"
    using assms(1,2) by (simp add: MakeDay_def)
  have ly: "DaysInYear y = 365 \<or> DaysInYear y = 366" by (simp add: DaysInYear_def)
  have rng: "0 \<le> month_start ?l (m - 1) + d - 1 \<and> month_start ?l (m - 1) + d - 1 < DaysInYear y"
    using assms(1,2)
    by (rule month_cases) (use assms(3,4) ly in \<open>auto simp: month_start_def DaysInMonth_def\<close>)
  have "DayFromYear y \<le> Day t" "Day t < DayFromYear (y + 1)"
    using rng by (simp_all add: assms(5) md DayFromYear_Suc)
  then show Y: "YearFromTime t = y"
    unfolding YearFromTime_def by (rule YearFromDay_unique)
  have dw: "DayWithinYear t = month_start ?l (m - 1) + d - 1"
    by (simp add: DayWithinYear_def Y assms(5) md)
  have il: "InLeapYear t = ?l" by (simp add: InLeapYear_def Y)
  show M: "MonthFromTime t = m - 1"
    unfolding MonthFromTime_def dw il Let_def using assms(1,2)
    by (rule month_cases) (use assms(3,4) ly in \<open>auto simp: month_start_def DaysInMonth_def\<close>)
  show "DateFromTime t = d"
    by (simp add: DateFromTime_def dw il M)
qed

section \<open>Well-formed timestamp strings\<close>

lemma split_on_none: "c \<notin> set a \<Longrightarrow> split_on c a = [a]"
  by (induction a) auto

lemma split_on_append: "c \<notin> set a \<Longrightarrow> split_on c (a @ c # b) = a # split_on c b"
  by (induction a) auto

lemma digit_not_sep:
  assumes "is_digit c"
  shows "c \<noteq> CHR '' ''" "c \<noteq> CHR ''.''" "c \<noteq> CHR '':''" "c \<noteq> CHR ''+''" "c \<noteq> CHR ''-''"
    "c \<noteq> CHR ''I''" "c \<noteq> CHR ''x''" "c \<noteq> CHR ''X''" "c \<noteq> CHR ''o''" "c \<noteq> CHR ''O''"
    "c \<noteq> CHR ''b''" "c \<noteq> CHR ''B''" "\<not> is_ws c"
  using assms by (auto simp: is_digit_def is_ws_def)

lemma digits_no_sep:
  assumes "list_all is_digit s"
  shows "CHR '' '' \<notin> set s" "CHR ''.'' \<notin> set s" "CHR '':'' \<notin> set s"
  using assms digit_not_sep(1-3) by (auto simp: list_all_iff)

lemma Number_digits:
  assumes "list_all is_digit s" and "s \<noteq> []"
  shows "Number s = Fin (of_nat (digits_val s))"
proof -
  obtain c r where s: "s = c # r" using assms(2) by (cases s) auto
  have c: "is_digit c" using assms(1) s by simp
  have l: "is_digit (last s)" using assms by (simp add: list_all_iff)
  have t1: "dropWhile is_ws s = s" using c digit_not_sep(13) by (simp add: s)
  have "dropWhile is_ws (rev s) = rev s"
    using l digit_not_sep(13) assms(2) by (cases "rev s") (auto simp: last_rev[symmetric] hd_rev)
  then have tr: "trim s = s" by (simp add: trim_def t1)
  have nd: "non_decimal s = None"
  proof (cases r)
    case Nil
    then show ?thesis by (simp add: non_decimal_def s)
  next
    case (Cons k ds)
    then have "is_digit k" using assms(1) s by simp
    then show ?thesis using digit_not_sep(7-12)[of k] by (simp add: non_decimal_def s Cons)
  qed
  have tw: "takeWhile is_digit s = s" "dropWhile is_digit s = []"
    using assms(1) by (simp_all add: list_all_iff)
  have "\<not> prefix ''Infinity'' s" using digit_not_sep(6)[OF c] by (simp add: s)
  then have pu: "parse_unsigned s = Some (Fin (of_nat (digits_val s)), [])"
    using assms(2) by (simp add: parse_unsigned_def tw parse_exponent_def digits_val_def)
  have "parse_signed s = parse_unsigned s"
    using digit_not_sep(4,5)[OF c] by (simp add: parse_signed_def s)
  then show ?thesis using assms(2) by (simp add: Number_def tr nd pu)
qed

lemma to_int_of_nat [simp]: "to_int (Fin (of_nat n)) = Some (int n)"
  using to_int_of_int[of "int n"] by (simp only: of_int_of_nat_eq)

lemma convert_shift:
  assumes "\<bar>t - 4 * msPerHour\<bar> \<le> 8640000000000000"
  shows "convertToPineScriptTimestamp (Some t) =
     \<lparr>year = Fin (of_int (YearFromTime (t - 4 * msPerHour))),
      month = Fin (of_int (MonthFromTime (t - 4 * msPerHour) + 1)),
      day = Fin (of_int (DateFromTime (t - 4 * msPerHour))),
      hours = Fin (of_int (HourFromTime (t - 4 * msPerHour))),
      minutes = Fin (of_int (MinFromTime (t - 4 * msPerHour)))\<rparr>"
proof -
  have "num_add (getUTCHours (Some t)) (num_add TV_UTC_OFFSET TV_DISPLAY_CORRECTION_HOURS) =
        Fin (of_int (HourFromTime t + (- 4)))"
    by (simp add: getUTCHours_def TV_UTC_OFFSET_def TV_DISPLAY_CORRECTION_HOURS_def)
  then have "setUTCHours (Some t) (num_add (getUTCHours (Some t)) (num_add TV_UTC_OFFSET TV_DISPLAY_CORRECTION_HOURS)) =
        TimeClip (t + (- 4) * msPerHour)"
    by (simp only: setUTCHours_shift)
  also have "\<dots> = Some (t - 4 * msPerHour)" using assms by (simp add: TimeClip_def)
  finally show ?thesis
    by (simp add: convertToPineScriptTimestamp_def Let_def getUTCFullYear_def getUTCMonth_def
        getUTCDate_def getUTCHours_def getUTCMinutes_def)
qed

lemma parse_wellformed:
  assumes dg: "digits 4 ys" "digits 2 mo" "digits 2 ds" "digits 2 hs" "digits 2 mis" "digits 2 ss"
  defines "t0 \<equiv> MakeDate (MakeDay (MakeFullYear (int (digits_val ys))) (int (digits_val mo) - 1) (int (digits_val ds)))
                 (MakeTime (int (digits_val hs)) (int (digits_val mis)) (int (digits_val ss)) 0)"
  shows "parseMT4DateToUTC (mt4_string ys mo ds hs mis ss) =
           Inr (case TimeClip t0 of None \<Rightarrow> None | Some t \<Rightarrow> TimeClip (t - 3 * msPerHour))"
proof -
  have d: "list_all is_digit ys" "list_all is_digit mo" "list_all is_digit ds"
    "list_all is_digit hs" "list_all is_digit mis" "list_all is_digit ss"
    and ne: "ys \<noteq> []" "mo \<noteq> []" "ds \<noteq> []" "hs \<noteq> []" "mis \<noteq> []" "ss \<noteq> []"
    using dg by (auto simp: digits_def)
  let ?date = "ys @ CHR ''.'' # mo @ CHR ''.'' # ds" and ?time = "hs @ CHR '':'' # mis @ CHR '':'' # ss"
  have "CHR '' '' \<notin> set ?date" "CHR '' '' \<notin> set ?time"
    using digits_no_sep(1)[OF d(1)] digits_no_sep(1)[OF d(2)] digits_no_sep(1)[OF d(3)]
      digits_no_sep(1)[OF d(4)] digits_no_sep(1)[OF d(5)] digits_no_sep(1)[OF d(6)] by simp_all
  then have sp: "split_on CHR '' '' (mt4_string ys mo ds hs mis ss) = [?date, ?time]"
    using split_on_append[of "CHR '' ''" ?date ?time] split_on_none[of "CHR '' ''" ?time]
    by (simp add: mt4_string_def)
  have s1: "split_on CHR ''.'' ?date = [ys, mo, ds]"
    using split_on_append[OF digits_no_sep(2)[OF d(1)], of "mo @ CHR ''.'' # ds"]
      split_on_append[OF digits_no_sep(2)[OF d(2)], of ds]
      split_on_none[OF digits_no_sep(2)[OF d(3)]] by simp
  have s2: "split_on CHR '':'' ?time = [hs, mis, ss]"
    using split_on_append[OF digits_no_sep(3)[OF d(4)], of "mis @ CHR '':'' # ss"]
      split_on_append[OF digits_no_sep(3)[OF d(5)], of ss]
      split_on_none[OF digits_no_sep(3)[OF d(6)]] by simp
  note n = Number_digits[OF d(1) ne(1)] Number_digits[OF d(2) ne(2)] Number_digits[OF d(3) ne(3)]
    Number_digits[OF d(4) ne(4)] Number_digits[OF d(5) ne(5)] Number_digits[OF d(6) ne(6)]
  have m1: "num_sub (Fin (of_nat (digits_val mo))) (Fin 1) = Fin (of_nat (digits_val mo) - 1)"
    by (simp add: num_sub_def)
  have m2: "Fin (of_nat (digits_val mo) - 1) = Fin (of_int (int (digits_val mo) - 1))"
    by simp
  have du: "Date_UTC (Fin (of_nat (digits_val ys))) (Fin (of_nat (digits_val mo) - 1))
      (Fin (of_nat (digits_val ds))) (Fin (of_nat (digits_val hs))) (Fin (of_nat (digits_val mis)))
      (Fin (of_nat (digits_val ss))) = TimeClip t0"
    unfolding Date_UTC_def t0_def m2 by (simp only: to_int_of_nat to_int_of_int Option.bind.simps)
  have sh: "setUTCHours (Some t) (num_sub (getUTCHours (Some t)) MT4_UTC_OFFSET) = TimeClip (t - 3 * msPerHour)" for t
  proof -
    have "num_sub (getUTCHours (Some t)) MT4_UTC_OFFSET = Fin (of_int (HourFromTime t + (- 3)))"
      by (simp add: getUTCHours_def MT4_UTC_OFFSET_def num_sub_def)
    then show ?thesis by (simp only: setUTCHours_shift) simp
  qed
  have "parseMT4DateToUTC (mt4_string ys mo ds hs mis ss) =
      Inr (setUTCHours (TimeClip t0) (num_sub (getUTCHours (TimeClip t0)) MT4_UTC_OFFSET))"
    by (simp add: parseMT4DateToUTC_def sp s1 s2 Let_def elem_def n m1 du)
  also have "setUTCHours (TimeClip t0) (num_sub (getUTCHours (TimeClip t0)) MT4_UTC_OFFSET) =
      (case TimeClip t0 of None \<Rightarrow> None | Some t \<Rightarrow> TimeClip (t - 3 * msPerHour))"
    by (cases "TimeClip t0") (simp_all add: sh, simp add: setUTCHours_def)
  finally show ?thesis .
qed

lemma digits_val_snoc: "digits_val (s @ [c]) = 10 * digits_val s + digit_val c"
  by (simp add: digits_val_def)

lemma digits_val_bound: "list_all is_digit s \<Longrightarrow> digits_val s < 10 ^ length s"
proof (induction s rule: rev_induct)
  case Nil
  then show ?case by (simp add: digits_val_def)
next
  case (snoc c s)
  then have "digit_val c \<le> 9" by (auto simp: is_digit_def digit_val_def)
  moreover have "digits_val s < 10 ^ length s" using snoc by simp
  ultimately show ?case by (simp add: digits_val_snoc)
qed

text \<open>
  Claim C5. Take a string \<open>YYYY.MM.DD HH:MM:SS\<close> of four, two, two, two, two and two
  digits that names a date of the calendar (month 1 to 12, a day of that month, hour at
  most 23, minute and second at most 59) in a year from 0100 on. Then
  \<open>parseMT4DateToUTC\<close> returns a valid time value \<open>t\<close>; three hours after \<open>t\<close> the
  UTC calendar shows exactly the fields of the string, so \<open>t\<close> is the instant three
  hours before the wall-clock reading; and \<open>convertToPineScriptTimestamp\<close> returns the
  UTC calendar fields of the instant four hours before \<open>t\<close>, as it does for every
  instant \<open>u\<close> for which \<open>u\<close> less four hours is in the range of \<open>Date\<close>.
  (\<open>Date.UTC\<close> reads a year from 0 to 99 as 1900 to 1999, whence the bound on the
  year.)
\<close>

theorem timestamp_reconciliation:
  assumes dg: "digits 4 ys" "digits 2 mo" "digits 2 ds" "digits 2 hs" "digits 2 mis" "digits 2 ss"
    and rng: "100 \<le> digits_val ys" "1 \<le> digits_val mo" "digits_val mo \<le> 12"
      "1 \<le> digits_val ds"
      "int (digits_val ds) \<le> DaysInMonth (int (digits_val ys)) (int (digits_val mo))"
      "digits_val hs \<le> 23" "digits_val mis \<le> 59" "digits_val ss \<le> 59"
  shows "(\<exists>t. parseMT4DateToUTC (mt4_string ys mo ds hs mis ss) = Inr (Some t) \<and>
             YearFromTime (t + 3 * msPerHour) = int (digits_val ys) \<and>
             MonthFromTime (t + 3 * msPerHour) + 1 = int (digits_val mo) \<and>
             DateFromTime (t + 3 * msPerHour) = int (digits_val ds) \<and>
             HourFromTime (t + 3 * msPerHour) = int (digits_val hs) \<and>
             MinFromTime (t + 3 * msPerHour) = int (digits_val mis) \<and>
             SecFromTime (t + 3 * msPerHour) = int (digits_val ss) \<and>
             msFromTime (t + 3 * msPerHour) = 0 \<and>
             convertToPineScriptTimestamp (Some t) = display_fields (t - 4 * msPerHour)) \<and>
         (\<forall>u. \<bar>u - 4 * msPerHour\<bar> \<le> 8640000000000000 \<longrightarrow>
              convertToPineScriptTimestamp (Some u) = display_fields (u - 4 * msPerHour))"
proof -
  define Y M D where "Y = int (digits_val ys)" and "M = int (digits_val mo)" and "D = int (digits_val ds)"
  define h mi s where "h = int (digits_val hs)" and "mi = int (digits_val mis)" and "s = int (digits_val ss)"
  define dd where "dd = MakeDay Y (M - 1) D"
  define t0 where "t0 = MakeDate dd (MakeTime h mi s 0)"
  have Y: "100 \<le> Y" "Y < 10000"
    using rng(1) digits_val_bound[of ys] dg(1) by (simp_all add: Y_def digits_def)
  have M: "1 \<le> M" "M \<le> 12" and D: "1 \<le> D" "D \<le> DaysInMonth Y M"
    and hms: "0 \<le> h" "h < 24" "0 \<le> mi" "mi < 60" "0 \<le> s" "s < 60"
    using rng by (simp_all add: M_def D_def Y_def h_def mi_def s_def)
  have fy: "MakeFullYear Y = Y" using Y by (simp add: MakeFullYear_def)
  note f = fields_of_MakeDate[OF hms _ _ t0_def]
  have day: "Day t0 = dd" by (rule f(1)) simp_all
  note cal = calendar_of_MakeDay[OF M D, of t0, unfolded day dd_def[symmetric], OF refl]
  have dy: "DayFromYear Y \<le> dd" "dd < DayFromYear (Y + 1)"
    using YearFromDay_spec[of dd] cal(1) day by (simp_all add: YearFromTime_def)
  have "400 * DayFromYear Y \<ge> 146097 * (100 - 1970) - 506"
    using DayFromYear_est(1)[of Y] Y by simp
  moreover have "400 * DayFromYear (Y + 1) \<le> 146097 * (10000 - 1970) + 589"
    using DayFromYear_est(2)[of "Y + 1"] Y by simp
  ultimately have ddr: "- 700000 \<le> dd" "dd \<le> 3000000" using dy by simp_all
  have tm: "0 \<le> MakeTime h mi s 0" "MakeTime h mi s 0 < msPerDay"
    using hms by (simp_all add: MakeTime_def msPerDay_def msPerHour_def msPerMinute_def msPerSecond_def)
  have t0r: "- 60480000000000 \<le> t0" "t0 \<le> 259286400000000"
    using ddr tm by (simp_all add: t0_def MakeDate_def msPerDay_def)
  then have tc: "TimeClip t0 = Some t0" "TimeClip (t0 - 3 * msPerHour) = Some (t0 - 3 * msPerHour)"
    by (simp_all add: TimeClip_def msPerHour_def)
  have p: "parseMT4DateToUTC (mt4_string ys mo ds hs mis ss) = Inr (Some (t0 - 3 * msPerHour))"
    using parse_wellformed[OF dg] fy tc
    unfolding t0_def dd_def Y_def M_def D_def h_def mi_def s_def by simp
  have c: "convertToPineScriptTimestamp (Some (t0 - 3 * msPerHour)) =
      display_fields (t0 - 3 * msPerHour - 4 * msPerHour)"
    unfolding display_fields_def by (rule convert_shift) (use t0r in \<open>simp add: msPerHour_def\<close>)
  have rt: "t0 - 3 * msPerHour + 3 * msPerHour = t0" by simp
  have parsed: "\<exists>t. parseMT4DateToUTC (mt4_string ys mo ds hs mis ss) = Inr (Some t) \<and>
             YearFromTime (t + 3 * msPerHour) = int (digits_val ys) \<and>
             MonthFromTime (t + 3 * msPerHour) + 1 = int (digits_val mo) \<and>
             DateFromTime (t + 3 * msPerHour) = int (digits_val ds) \<and>
             HourFromTime (t + 3 * msPerHour) = int (digits_val hs) \<and>
             MinFromTime (t + 3 * msPerHour) = int (digits_val mis) \<and>
             SecFromTime (t + 3 * msPerHour) = int (digits_val ss) \<and>
             msFromTime (t + 3 * msPerHour) = 0 \<and>
             convertToPineScriptTimestamp (Some t) = display_fields (t - 4 * msPerHour)"
    apply (rule exI[of _ "t0 - 3 * msPerHour"])
    unfolding rt
    using p c cal f(2-5) M
    by (simp add: Y_def M_def D_def h_def mi_def s_def)
  have shifted: "\<forall>u. \<bar>u - 4 * msPerHour\<bar> \<le> 8640000000000000 \<longrightarrow>
      convertToPineScriptTimestamp (Some u) = display_fields (u - 4 * msPerHour)"
    unfolding display_fields_def by (intro allI impI) (rule convert_shift)
  show ?thesis using parsed shifted by (rule conjI)
qed

section \<open>The properties on the example data\<close>

lemmas calendar_eval =
  mt4_string_def digits_def is_digit_def digits_val_def digit_val_def MakeFullYear_def
  MakeDay_def MakeDate_def MakeTime_def DayFromYear_def DaysInYear_def month_start_def
  TimeClip_def msPerDay_def msPerHour_def msPerMinute_def msPerSecond_def

lemma parse_2025_06_25: "parseMT4DateToUTC ''2025.06.25 16:09:01'' = Inr (Some 1750856941000)"
  using parse_wellformed[of "''2025''" "''06''" "''25''" "''16''" "''09''" "''01''"]
  by (simp add: calendar_eval)

lemma parse_2025_06_24: "parseMT4DateToUTC ''2025.06.24 09:30:00'' = Inr (Some 1750746600000)"
  using parse_wellformed[of "''2025''" "''06''" "''24''" "''09''" "''30''" "''00''"]
  by (simp add: calendar_eval)

lemmas classify_eval =
  classifyAndGroupTrades_def group_passes_def first_pass_step_def classify_def
  num_gt_def num_ge_def num_le_def get_property_def object_prototype_keys_def push_to_def
  push_winner_def push_breakeven_def push_loser_def empty_group_def dedup_key_of_def map_set_def
  sort_group_def compare_open_time_def getTime_def num_sub_def example_trade_def
  parse_2025_06_25 parse_2025_06_24

text \<open>
  Claim C1 at two winner candidates of one instrument with the same open time and open
  price, tolerance 0: the trade of profit 50 is in no bucket of the output, which holds
  the trade of profit 80 alone.
\<close>

theorem partition_counterexample:
  "classifyAndGroupTrades
     [example_trade ''101'' ''2025.06.25 16:09:01'' ''eurusd'' 50,
      example_trade ''102'' ''2025.06.25 16:09:01'' ''eurusd'' 80] (Fin 0) =
   Inr [(''eurusd'',
         \<lparr>winners = [example_trade ''102'' ''2025.06.25 16:09:01'' ''eurusd'' 80],
          breakeven = [], losers = []\<rparr>)] \<and>
   example_trade ''101'' ''2025.06.25 16:09:01'' ''eurusd'' 50 \<notin>
     set (all_trades [(''eurusd'',
         \<lparr>winners = [example_trade ''102'' ''2025.06.25 16:09:01'' ''eurusd'' 80],
          breakeven = [], losers = []\<rparr>)])"
  by (simp add: classify_eval all_trades_def group_trades_def)

text \<open>
  Claim C2 at two winners with the same open time and open price on two instruments,
  tolerance 0. The key of \<open>winnersMap\<close> leaves the instrument out, so the second
  winner replaces the first: the group of \<open>eurusd\<close> is created and stays without a
  winner, where instrument-scoped deduplication keeps one winner in each group.
\<close>

theorem cross_instrument_merge:
  "classifyAndGroupTrades
     [example_trade ''101'' ''2025.06.25 16:09:01'' ''eurusd'' 50,
      example_trade ''102'' ''2025.06.25 16:09:01'' ''gbpusd'' 80] (Fin 0) =
   Inr [(''eurusd'', \<lparr>winners = [], breakeven = [], losers = []\<rparr>),
        (''gbpusd'',
         \<lparr>winners = [example_trade ''102'' ''2025.06.25 16:09:01'' ''gbpusd'' 80],
          breakeven = [], losers = []\<rparr>)]"
  by (simp add: classify_eval)

lemma example_result: "classifyAndGroupTrades example_trades (Fin 5) = Inr example_grouped"
  by (simp add: example_trades_def example_grouped_def classify_eval)

lemma dedup_example_result:
  "classifyAndGroupTrades dedup_example (Fin 5) = Inr dedup_example_grouped"
  by (simp add: dedup_example_def dedup_example_grouped_def classify_eval)

lemma dedup_example_winners:
  "all_winners dedup_example_grouped =
     [example_trade ''303'' ''2025.06.24 09:30:00'' ''eurusd'' 60,
      example_trade ''302'' ''2025.06.25 16:09:01'' ''eurusd'' 80,
      (example_trade ''304'' ''2025.06.25 16:09:01'' ''eurusd'' 70)\<lparr>openPrice := Fin (12 / 10)\<rparr>]"
  by (simp add: all_winners_def dedup_example_grouped_def)

lemma dedup_example_candidates:
  "example_trade ''301'' ''2025.06.25 16:09:01'' ''eurusd'' 50 \<in> set dedup_example"
  "classify (Fin 5) (example_trade ''301'' ''2025.06.25 16:09:01'' ''eurusd'' 50) = WinnerCandidate"
  "example_trade ''303'' ''2025.06.24 09:30:00'' ''eurusd'' 60 \<in> set dedup_example"
  "classify (Fin 5) (example_trade ''303'' ''2025.06.24 09:30:00'' ''eurusd'' 60) = WinnerCandidate"
  "(example_trade ''304'' ''2025.06.25 16:09:01'' ''eurusd'' 70)\<lparr>openPrice := Fin (12 / 10)\<rparr>
     \<in> set dedup_example"
  "classify (Fin 5) ((example_trade ''304'' ''2025.06.25 16:09:01'' ''eurusd'' 70)
     \<lparr>openPrice := Fin (12 / 10)\<rparr>) = WinnerCandidate"
  by (simp_all add: dedup_example_def classify_def num_gt_def example_trade_def)

text \<open>
  The partition property on the six trades of the deduplication example: the loser is
  kept, the candidate of ticket 303, alone with its open time, is in the output once,
  and the candidate of profit 50 is represented by the winner of ticket 302.
\<close>

theorem partition_corrected_witness:
  "classifyAndGroupTrades dedup_example (Fin 5) = Inr dedup_example_grouped \<and>
   distinct (map fst dedup_example_grouped) \<and>
   mset (all_trades dedup_example_grouped) \<subseteq># mset dedup_example \<and>
   count (mset (all_trades dedup_example_grouped))
     (example_trade ''306'' ''2025.06.25 16:09:01'' ''eurusd'' (- 6)) =
   count (mset dedup_example)
     (example_trade ''306'' ''2025.06.25 16:09:01'' ''eurusd'' (- 6)) \<and>
   count (mset (all_trades dedup_example_grouped))
     (example_trade ''303'' ''2025.06.24 09:30:00'' ''eurusd'' 60) = 1 \<and>
   (\<exists>b w. map_of dedup_example_grouped ''eurusd'' = Some b \<and> w \<in> set (winners b) \<and>
      filter (\<lambda>y. openTimeRaw y = ''2025.06.25 16:09:01'' \<and> openPrice y = Fin (11 / 10))
        (all_winners dedup_example_grouped) = [w] \<and>
      ticket w = ''302'' \<and> num_le (Fin 50) (profit w))"
proof -
  let ?x = "example_trade ''301'' ''2025.06.25 16:09:01'' ''eurusd'' 50"
  let ?s = "example_trade ''303'' ''2025.06.24 09:30:00'' ''eurusd'' 60"
  let ?l = "example_trade ''306'' ''2025.06.25 16:09:01'' ''eurusd'' (- 6)"
  note p = partition_corrected[OF dedup_example_result]
  have l: "classify (Fin 5) ?l \<noteq> WinnerCandidate"
    by (simp add: classify_def example_trade_def num_gt_def num_ge_def num_le_def)
  have alone: "\<forall>c\<in>set dedup_example. classify (Fin 5) c = WinnerCandidate \<and>
      openTimeRaw c = openTimeRaw ?s \<and> openPrice c = openPrice ?s \<longrightarrow> c = ?s"
    by (simp add: dedup_example_def example_trade_def)
  have scoped: "\<forall>c\<in>set dedup_example. classify (Fin 5) c = WinnerCandidate \<and>
      openTimeRaw c = openTimeRaw ?x \<and> openPrice c = openPrice ?x \<longrightarrow> item c = item ?x"
    by (simp add: dedup_example_def example_trade_def)
  have 1: "count (mset (all_trades dedup_example_grouped)) ?l = count (mset dedup_example) ?l"
    using p l by blast
  have 2: "count (mset (all_trades dedup_example_grouped)) ?s = 1"
    using p dedup_example_candidates(3,4) alone by blast
  from p dedup_example_candidates(1,2) scoped obtain b w where
    w: "map_of dedup_example_grouped (item ?x) = Some b" "w \<in> set (winners b)"
      "filter (\<lambda>y. openTimeRaw y = openTimeRaw ?x \<and> openPrice y = openPrice ?x)
         (all_winners dedup_example_grouped) = [w]"
      "num_le (profit ?x) (profit w)"
    by blast
  have f: "filter (\<lambda>y. openTimeRaw y = openTimeRaw ?x \<and> openPrice y = openPrice ?x)
         (all_winners dedup_example_grouped) =
       [example_trade ''302'' ''2025.06.25 16:09:01'' ''eurusd'' 80]"
    unfolding dedup_example_winners by (simp add: example_trade_def)
  have "ticket w = ''302''" using w(3) unfolding f by (auto simp: example_trade_def)
  then have 3: "\<exists>b w. map_of dedup_example_grouped ''eurusd'' = Some b \<and> w \<in> set (winners b) \<and>
      filter (\<lambda>y. openTimeRaw y = ''2025.06.25 16:09:01'' \<and> openPrice y = Fin (11 / 10))
        (all_winners dedup_example_grouped) = [w] \<and>
      ticket w = ''302'' \<and> num_le (Fin 50) (profit w)"
    using w by (auto simp: example_trade_def)
  show ?thesis using p dedup_example_result 1 2 3 by blast
qed

text \<open>
  The two example trades at the boundaries, of profits 5 and -5 at tolerance 5, are
  break-even and in the break-even bucket.
\<close>

lemma classification_decimal_example:
  "(0::rat) \<le> 5 \<and>
   profit (example_trade ''201'' ''2025.06.25 16:09:01'' ''eurusd'' 5) = Fin 5 \<and>
   profit (example_trade ''202'' ''2025.06.24 09:30:00'' ''eurusd'' (- 5)) = Fin (- 5) \<and>
   classifyAndGroupTrades example_trades (Fin 5) = Inr example_grouped \<and>
   example_trade ''201'' ''2025.06.25 16:09:01'' ''eurusd'' 5 \<in> set example_trades \<and>
   example_trade ''202'' ''2025.06.24 09:30:00'' ''eurusd'' (- 5) \<in> set example_trades \<and>
   classify (Fin 5) (example_trade ''201'' ''2025.06.25 16:09:01'' ''eurusd'' 5) = Breakeven \<and>
   classify (Fin 5) (example_trade ''202'' ''2025.06.24 09:30:00'' ''eurusd'' (- 5)) = Breakeven \<and>
   (\<exists>b. map_of example_grouped
          (item (example_trade ''201'' ''2025.06.25 16:09:01'' ''eurusd'' 5)) = Some b \<and>
        example_trade ''201'' ''2025.06.25 16:09:01'' ''eurusd'' 5 \<in> set (breakeven b)) \<and>
   (\<exists>b. map_of example_grouped
          (item (example_trade ''202'' ''2025.06.24 09:30:00'' ''eurusd'' (- 5))) = Some b \<and>
        example_trade ''202'' ''2025.06.24 09:30:00'' ''eurusd'' (- 5) \<in> set (breakeven b))"
proof -
  have h: "(0::rat) \<le> 5"
    "profit (example_trade ''201'' ''2025.06.25 16:09:01'' ''eurusd'' 5) = Fin 5"
    "profit (example_trade ''202'' ''2025.06.24 09:30:00'' ''eurusd'' (- 5)) = Fin (- 5)"
    "example_trade ''201'' ''2025.06.25 16:09:01'' ''eurusd'' 5 \<in> set example_trades"
    "example_trade ''202'' ''2025.06.24 09:30:00'' ''eurusd'' (- 5) \<in> set example_trades"
    by (simp_all add: example_trade_def example_trades_def)
  show ?thesis
    using classification_decimal[OF refl h(1,2) example_result h(4)]
      classification_decimal[OF refl h(1,3) example_result h(5)] h example_result
    by simp
qed

text \<open>
  The deduplication example has winner candidates of three keys. Of the candidates of
  profits 50, 80 and 80 with one open time and open price the first of profit 80
  survives, ticket 302; the candidate with another open time and the candidate with
  another open price survive beside it.
\<close>

theorem winner_dedup_witness:
  "classifyAndGroupTrades dedup_example (Fin 5) = Inr dedup_example_grouped \<and>
   map ticket dedup_example = [''301'', ''302'', ''303'', ''304'', ''305'', ''306''] \<and>
   map ticket (all_winners dedup_example_grouped) = [''303'', ''302'', ''304''] \<and>
   (\<exists>w. filter (\<lambda>y. openTimeRaw y = ''2025.06.25 16:09:01'' \<and> openPrice y = Fin (11 / 10))
           (all_winners dedup_example_grouped) = [w] \<and>
        ticket w = ''302'' \<and> profit w = Fin 80) \<and>
   (\<exists>w. filter (\<lambda>y. openTimeRaw y = ''2025.06.24 09:30:00'' \<and> openPrice y = Fin (11 / 10))
           (all_winners dedup_example_grouped) = [w] \<and>
        ticket w = ''303'' \<and> profit w = Fin 60) \<and>
   (\<exists>w. filter (\<lambda>y. openTimeRaw y = ''2025.06.25 16:09:01'' \<and> openPrice y = Fin (12 / 10))
           (all_winners dedup_example_grouped) = [w] \<and>
        ticket w = ''304'' \<and> profit w = Fin 70)"
proof -
  let ?a = "example_trade ''301'' ''2025.06.25 16:09:01'' ''eurusd'' 50"
  let ?b = "example_trade ''303'' ''2025.06.24 09:30:00'' ''eurusd'' 60"
  let ?c = "(example_trade ''304'' ''2025.06.25 16:09:01'' ''eurusd'' 70)\<lparr>openPrice := Fin (12 / 10)\<rparr>"
  note c = dedup_example_candidates
  from winner_dedup[OF dedup_example_result c(1,2)] obtain w1 where
    w1: "filter (\<lambda>y. openTimeRaw y = openTimeRaw ?a \<and> openPrice y = openPrice ?a)
           (all_winners dedup_example_grouped) = [w1]"
    by blast
  from winner_dedup[OF dedup_example_result c(3,4)] obtain w2 where
    w2: "filter (\<lambda>y. openTimeRaw y = openTimeRaw ?b \<and> openPrice y = openPrice ?b)
           (all_winners dedup_example_grouped) = [w2]"
    by blast
  from winner_dedup[OF dedup_example_result c(5,6)] obtain w3 where
    w3: "filter (\<lambda>y. openTimeRaw y = openTimeRaw ?c \<and> openPrice y = openPrice ?c)
           (all_winners dedup_example_grouped) = [w3]"
    by blast
  have k: "openTimeRaw ?a = ''2025.06.25 16:09:01''" "openPrice ?a = Fin (11 / 10)"
    "openTimeRaw ?b = ''2025.06.24 09:30:00''" "openPrice ?b = Fin (11 / 10)"
    "openTimeRaw ?c = ''2025.06.25 16:09:01''" "openPrice ?c = Fin (12 / 10)"
    by (simp_all add: example_trade_def)
  have e1: "w1 = example_trade ''302'' ''2025.06.25 16:09:01'' ''eurusd'' 80"
    using w1 unfolding dedup_example_winners by (simp add: example_trade_def)
  have e2: "w2 = ?b"
    using w2 unfolding dedup_example_winners by (simp add: example_trade_def)
  have e3: "w3 = ?c"
    using w3 unfolding dedup_example_winners by (simp add: example_trade_def)
  have t: "ticket w1 = ''302''" "profit w1 = Fin 80" "ticket w2 = ''303''" "profit w2 = Fin 60"
    "ticket w3 = ''304''" "profit w3 = Fin 70"
    unfolding e1 e2 e3 by (simp_all add: example_trade_def)
  have m: "map ticket dedup_example = [''301'', ''302'', ''303'', ''304'', ''305'', ''306'']"
    "map ticket (all_winners dedup_example_grouped) = [''303'', ''302'', ''304'']"
    unfolding dedup_example_winners by (simp_all add: dedup_example_def example_trade_def)
  show ?thesis
    using dedup_example_result m w1 w2 w3 t unfolding k by blast
qed

lemma example_open_times:
  "list_all (\<lambda>t. true_open_time t \<noteq> None) example_trades"
  by (simp add: example_trades_def true_open_time_def example_trade_def
      parse_2025_06_25 parse_2025_06_24)

text \<open>
  The buckets of the example output are sorted, those of equal open time in input order.
\<close>

theorem buckets_sorted_witness:
  "classifyAndGroupTrades example_trades (Fin 5) = Inr example_grouped \<and>
   list_all (\<lambda>t. true_open_time t \<noteq> None) example_trades \<and>
   (\<exists>g0 a b. (''eurusd'', b) \<in> set example_grouped \<and>
      group_passes example_trades (Fin 5) = Inr g0 \<and> map_of g0 ''eurusd'' = Some a \<and>
      sorted_stable (winners a) (winners b) \<and>
      sorted_stable (breakeven a) (breakeven b) \<and>
      sorted_stable (losers a) (losers b) \<and>
      map ticket (losers a) = [''205'', ''206'', ''207''] \<and>
      map ticket (losers b) = [''206'', ''207'', ''205''])"
proof -
  let ?b = "snd (hd example_grouped)"
  have v: "\<forall>t\<in>set example_trades. true_open_time t \<noteq> None"
    using example_open_times by (simp add: list_all_iff)
  have m: "(''eurusd'', ?b) \<in> set example_grouped"
    by (simp add: example_grouped_def)
  from buckets_sorted[OF example_result v m] obtain g0 a where
    a: "group_passes example_trades (Fin 5) = Inr g0" "map_of g0 ''eurusd'' = Some a"
      "sorted_stable (winners a) (winners ?b)" "sorted_stable (breakeven a) (breakeven ?b)"
      "sorted_stable (losers a) (losers ?b)"
    by blast
  have "group_passes example_trades (Fin 5) =
     Inr [(''eurusd'',
       \<lparr>winners = [example_trade ''204'' ''2025.06.25 16:09:01'' ''eurusd'' 80],
        breakeven = [example_trade ''201'' ''2025.06.25 16:09:01'' ''eurusd'' 5,
                     example_trade ''202'' ''2025.06.24 09:30:00'' ''eurusd'' (- 5)],
        losers = [example_trade ''205'' ''2025.06.25 16:09:01'' ''eurusd'' (- 6),
                  example_trade ''206'' ''2025.06.24 09:30:00'' ''eurusd'' (- 7),
                  example_trade ''207'' ''2025.06.24 09:30:00'' ''eurusd'' (- 8)]\<rparr>)]"
    by (simp add: example_trades_def classify_eval)
  then have "map ticket (losers a) = [''205'', ''206'', ''207'']"
    using a(1,2) by (auto simp: example_trade_def)
  moreover have "map ticket (losers ?b) = [''206'', ''207'', ''205'']"
    by (simp add: example_grouped_def example_trade_def)
  ultimately have "\<exists>g0 a b. (''eurusd'', b) \<in> set example_grouped \<and>
      group_passes example_trades (Fin 5) = Inr g0 \<and> map_of g0 ''eurusd'' = Some a \<and>
      sorted_stable (winners a) (winners b) \<and>
      sorted_stable (breakeven a) (breakeven b) \<and>
      sorted_stable (losers a) (losers b) \<and>
      map ticket (losers a) = [''205'', ''206'', ''207''] \<and>
      map ticket (losers b) = [''206'', ''207'', ''205'']"
    using a m by (intro exI[of _ g0] exI[of _ a] exI[of _ ?b]) simp
  then show ?thesis
    using example_result example_open_times by simp
qed

text \<open>
  The string \<open>2025.06.25 16:09:01\<close> is the instant 2025-06-25T13:09:01Z, displayed
  as year 2025, month 6, day 25, hour 9, minute 9.
\<close>

theorem timestamp_reconciliation_witness:
  "digits 4 ''2025'' \<and> digits 2 ''06'' \<and> digits 2 ''25'' \<and> digits 2 ''16'' \<and>
   digits 2 ''09'' \<and> digits 2 ''01'' \<and>
   mt4_string ''2025'' ''06'' ''25'' ''16'' ''09'' ''01'' = ''2025.06.25 16:09:01'' \<and>
   parseMT4DateToUTC ''2025.06.25 16:09:01'' = Inr (Some 1750856941000) \<and>
   convertToPineScriptTimestamp (Some 1750856941000) =
     \<lparr>year = Fin 2025, month = Fin 6, day = Fin 25, hours = Fin 9, minutes = Fin 9\<rparr>"
proof -
  have d: "digits 4 ''2025''" "digits 2 ''06''" "digits 2 ''25''" "digits 2 ''16''"
    "digits 2 ''09''" "digits 2 ''01''"
    by (simp_all add: digits_def is_digit_def)
  have r: "100 \<le> digits_val ''2025''" "1 \<le> digits_val ''06''" "digits_val ''06'' \<le> 12"
    "1 \<le> digits_val ''25''"
    "int (digits_val ''25'') \<le> DaysInMonth (int (digits_val ''2025'')) (int (digits_val ''06''))"
    "digits_val ''16'' \<le> 23" "digits_val ''09'' \<le> 59" "digits_val ''01'' \<le> 59"
    by (simp_all add: digits_val_def digit_val_def DaysInMonth_def)
  have s: "mt4_string ''2025'' ''06'' ''25'' ''16'' ''09'' ''01'' = ''2025.06.25 16:09:01''"
    by (simp add: mt4_string_def)
  from timestamp_reconciliation[OF d r] obtain t where
    t: "parseMT4DateToUTC ''2025.06.25 16:09:01'' = Inr (Some t)"
      "convertToPineScriptTimestamp (Some t) = display_fields (t - 4 * msPerHour)"
    unfolding s by blast
  have t': "t = 1750856941000" using t(1) by (simp add: parse_2025_06_25)
  have "display_fields (1750856941000 - 4 * msPerHour) =
     \<lparr>year = Fin 2025, month = Fin 6, day = Fin 25, hours = Fin 9, minutes = Fin 9\<rparr>"
    by (simp add: display_fields_def YearFromTime_def YearFromDay_def MonthFromTime_def
        DateFromTime_def DayWithinYear_def InLeapYear_def HourFromTime_def MinFromTime_def
        Day_def DayFromYear_def DaysInYear_def month_start_def
        msPerDay_def msPerHour_def msPerMinute_def)
  then show ?thesis using d s t unfolding t' by simp
qed

section \<open>The rows the parser accepts\<close>

lemma str_includes_iff: "str_includes s p = (\<exists>pre post. s = pre @ p @ post)"
proof (induction s)
  case Nil
  then show ?case by auto
next
  case (Cons c cs)
  show ?case
  proof
    assume "str_includes (c # cs) p"
    then consider "prefix p (c # cs)" | "str_includes cs p" by auto
    then show "\<exists>pre post. c # cs = pre @ p @ post"
    proof cases
      case 1
      then obtain post where "c # cs = p @ post" by (auto simp: prefix_def)
      then have "c # cs = [] @ p @ post" by simp
      then show ?thesis by blast
    next
      case 2
      then obtain pre post where "cs = pre @ p @ post" using Cons by blast
      then have "c # cs = (c # pre) @ p @ post" by simp
      then show ?thesis by blast
    qed
  next
    assume "\<exists>pre post. c # cs = pre @ p @ post"
    then obtain pre post where e: "c # cs = pre @ p @ post" by blast
    show "str_includes (c # cs) p"
    proof (cases pre)
      case Nil
      then have "prefix p (c # cs)" using e by (simp add: prefix_def)
      then show ?thesis by simp
    next
      case (Cons a pre')
      then have "cs = pre' @ p @ post" using e by simp
      then have "str_includes cs p" using Cons.IH by blast
      then show ?thesis by simp
    qed
  qed
qed

lemma trim_decomp:
  "\<exists>a b. s = a @ trim s @ b \<and> list_all is_ws a \<and> list_all is_ws b"
proof -
  define u where "u = dropWhile is_ws s"
  have 1: "s = takeWhile is_ws s @ u" by (simp add: u_def)
  have "rev (takeWhile is_ws (rev u) @ dropWhile is_ws (rev u)) = rev (rev u)"
    by (simp only: takeWhile_dropWhile_id)
  then have "rev (dropWhile is_ws (rev u)) @ rev (takeWhile is_ws (rev u)) = u"
    by (simp only: rev_append rev_rev_ident)
  then have 2: "u = trim s @ rev (takeWhile is_ws (rev u))"
    by (simp only: trim_def u_def)
  have 3: "list_all is_ws (takeWhile is_ws s)" "list_all is_ws (rev (takeWhile is_ws (rev u)))"
    by (auto simp: list_all_iff dest: set_takeWhileD)
  have "s = takeWhile is_ws s @ trim s @ rev (takeWhile is_ws (rev u))"
    using 1 2 by simp
  then show ?thesis using 3 by blast
qed

lemma trimStart_of_trim:
  assumes "trim s = c # m" and "\<not> is_ws c"
  shows "\<exists>b. trimStart s = c # m @ b"
proof -
  from trim_decomp[of s] obtain a b where
    s: "s = a @ (c # m) @ b" and a: "list_all is_ws a" unfolding assms(1) by blast
  have "dropWhile is_ws (a @ (c # m) @ b) = (c # m) @ b"
    using a assms(2) by (simp add: dropWhile_append3 list_all_iff)
  then show ?thesis unfolding trimStart_def using s by simp
qed

lemma sentinel_not_trade_row: "is_sentinel r \<Longrightarrow> \<not> is_trade_row r"
proof -
  assume "is_sentinel r"
  then have t: "trim (hd r) = ''Closed Transactions:''" by (simp add: is_sentinel_def)
  then have ne: "hd r \<noteq> []" by (auto simp: trim_def)
  from trimStart_of_trim[of "hd r" "CHR ''C''" "''losed Transactions:''"] t
  obtain b where "trimStart (hd r) = ''Closed Transactions:'' @ b"
    by (auto simp: is_ws_def)
  then have "parseFloat (hd r) = NaN"
    by (simp add: parseFloat_def parse_signed_def parse_unsigned_def is_digit_def)
  then show ?thesis using ne by (simp add: is_trade_row_def or_else_def isNaN_def)
qed

lemma sentinel_not_terminator: "is_sentinel r \<Longrightarrow> \<not> is_terminator r"
proof
  assume s: "is_sentinel r" and t: "is_terminator r"
  from s have tr: "trim (hd r) = ''Closed Transactions:''" by (simp add: is_sentinel_def)
  from trim_decomp[of "hd r"] obtain a b where
    d: "hd r = a @ ''Closed Transactions:'' @ b" "list_all is_ws a" "list_all is_ws b"
    unfolding tr by blast
  have "\<forall>c\<in>set (hd r). is_ws c \<or> c \<in> set ''Closed Transactions:''"
    using d(2,3) unfolding d(1) list_all_iff by auto
  then have no: "CHR ''p'' \<notin> set (hd r)" "CHR ''/'' \<notin> set (hd r)"
    by (auto simp: is_ws_def)
  from t consider "str_includes (hd r) ''Open Trades:''" | "str_includes (hd r) ''Closed P/L:''"
    by (auto simp: is_terminator_def)
  then show False
  proof cases
    case 1
    then obtain pre post where "hd r = pre @ ''Open Trades:'' @ post"
      unfolding str_includes_iff by blast
    then have "CHR ''p'' \<in> set (hd r)" by simp
    then show False using no by simp
  next
    case 2
    then obtain pre post where "hd r = pre @ ''Closed P/L:'' @ post"
      unfolding str_includes_iff by blast
    then have "CHR ''/'' \<in> set (hd r)" by simp
    then show False using no by simp
  qed
qed

lemma scan_rows_True:
  "scan_rows True rows =
     map row_to_trade (filter is_trade_row (takeWhile (\<lambda>r. \<not> is_terminator r) rows))"
  by (induction rows) (auto dest: sentinel_not_trade_row sentinel_not_terminator)

lemma scan_rows_False:
  "scan_rows False rows = map row_to_trade (accepted_rows rows)"
proof (induction rows)
  case Nil
  then show ?case by (simp add: accepted_rows_def)
next
  case (Cons r rows)
  show ?case
  proof (cases "is_sentinel r")
    case True
    then show ?thesis by (simp add: accepted_rows_def scan_rows_True)
  next
    case False
    then show ?thesis using Cons by (simp add: accepted_rows_def)
  qed
qed


lemma find_table_None: "(find_table ts = None) = (\<forall>t\<in>set ts. \<not> str_includes (textContent t) ''Closed Transactions:'')"
  by (induction ts) auto

lemma find_table_Some:
  "(find_table ts = Some t) =
     (\<exists>pre post. ts = pre @ t # post \<and> str_includes (textContent t) ''Closed Transactions:'' \<and>
        (\<forall>x\<in>set pre. \<not> str_includes (textContent x) ''Closed Transactions:''))"
proof (induction ts)
  case Nil
  then show ?case by simp
next
  case (Cons a ts)
  show ?case
  proof (cases "str_includes (textContent a) ''Closed Transactions:''")
    case True
    have "(\<exists>pre post. a # ts = pre @ t # post \<and> str_includes (textContent t) ''Closed Transactions:'' \<and>
        (\<forall>x\<in>set pre. \<not> str_includes (textContent x) ''Closed Transactions:'')) = (a = t)"
    proof
      assume "\<exists>pre post. a # ts = pre @ t # post \<and> str_includes (textContent t) ''Closed Transactions:'' \<and>
        (\<forall>x\<in>set pre. \<not> str_includes (textContent x) ''Closed Transactions:'')"
      then obtain pre post where p: "a # ts = pre @ t # post"
        "\<forall>x\<in>set pre. \<not> str_includes (textContent x) ''Closed Transactions:''" by blast
      then show "a = t" using True by (cases pre) auto
    next
      assume "a = t"
      then have "a # ts = [] @ t # ts" by simp
      then show "\<exists>pre post. a # ts = pre @ t # post \<and> str_includes (textContent t) ''Closed Transactions:'' \<and>
        (\<forall>x\<in>set pre. \<not> str_includes (textContent x) ''Closed Transactions:'')"
        using True \<open>a = t\<close> by (metis empty_iff list.set(1))
    qed
    then show ?thesis using True by simp
  next
    case False
    have "(\<exists>pre post. a # ts = pre @ t # post \<and> str_includes (textContent t) ''Closed Transactions:'' \<and>
        (\<forall>x\<in>set pre. \<not> str_includes (textContent x) ''Closed Transactions:'')) =
        (\<exists>pre post. ts = pre @ t # post \<and> str_includes (textContent t) ''Closed Transactions:'' \<and>
        (\<forall>x\<in>set pre. \<not> str_includes (textContent x) ''Closed Transactions:''))"
    proof
      assume "\<exists>pre post. a # ts = pre @ t # post \<and> str_includes (textContent t) ''Closed Transactions:'' \<and>
        (\<forall>x\<in>set pre. \<not> str_includes (textContent x) ''Closed Transactions:'')"
      then obtain pre post where p: "a # ts = pre @ t # post" "str_includes (textContent t) ''Closed Transactions:''"
        "\<forall>x\<in>set pre. \<not> str_includes (textContent x) ''Closed Transactions:''" by blast
      then obtain pre' where "pre = a # pre'" using False by (cases pre) auto
      then show "\<exists>pre post. ts = pre @ t # post \<and> str_includes (textContent t) ''Closed Transactions:'' \<and>
        (\<forall>x\<in>set pre. \<not> str_includes (textContent x) ''Closed Transactions:'')"
        using p by auto
    next
      assume "\<exists>pre post. ts = pre @ t # post \<and> str_includes (textContent t) ''Closed Transactions:'' \<and>
        (\<forall>x\<in>set pre. \<not> str_includes (textContent x) ''Closed Transactions:'')"
      then obtain pre post where p: "ts = pre @ t # post" "str_includes (textContent t) ''Closed Transactions:''"
        "\<forall>x\<in>set pre. \<not> str_includes (textContent x) ''Closed Transactions:''" by blast
      then have "a # ts = (a # pre) @ t # post"
        "\<forall>x\<in>set (a # pre). \<not> str_includes (textContent x) ''Closed Transactions:''"
        using False by simp_all
      then show "\<exists>pre post. a # ts = pre @ t # post \<and> str_includes (textContent t) ''Closed Transactions:'' \<and>
        (\<forall>x\<in>set pre. \<not> str_includes (textContent x) ''Closed Transactions:'')"
        using p(2) by blast
    qed
    then show ?thesis using False Cons by simp
  qed
qed

section \<open>The outcomes of the parser\<close>

lemma closed_transactions_table_iff:
  "closed_transactions_table tables t = (find_table tables = Some t)"
  by (simp add: closed_transactions_table_def find_table_Some)

lemma classify_error: "classifyAndGroupTrades ts tol = Inl e \<Longrightarrow> e = TypeError"
  by (cases e) simp

text \<open>
  Claim C6. For every parser \<open>P\<close> of the browser and every input, \<open>processReport\<close>
  is rejected with the first error exactly when no table of the document contains the
  marker text; with the second exactly when there is such a table and the first of them
  has no accepted row; with the third exactly when that table has accepted rows and the
  classifier throws on their trades; and it resolves to \<open>g\<close> exactly when the
  classifier returns \<open>g\<close> on them. There is no other outcome.
\<close>

theorem processReport_outcomes:
  "((processReport P htm tol = Inl MissingSectionError) =
      (\<forall>t\<in>set (getElementsByTagName ''table'' (P htm)).
          \<not> str_includes (textContent t) ''Closed Transactions:'')) \<and>
   ((processReport P htm tol = Inl EmptyReportError) =
      (\<exists>t. closed_transactions_table (getElementsByTagName ''table'' (P htm)) t \<and>
           accepted_trades t = [])) \<and>
   ((processReport P htm tol = Inl MalformedInputError) =
      (\<exists>t. closed_transactions_table (getElementsByTagName ''table'' (P htm)) t \<and>
           accepted_trades t \<noteq> [] \<and>
           classifyAndGroupTrades (accepted_trades t) tol = Inl TypeError)) \<and>
   ((processReport P htm tol = Inr g) =
      (\<exists>t. closed_transactions_table (getElementsByTagName ''table'' (P htm)) t \<and>
           accepted_trades t \<noteq> [] \<and>
           classifyAndGroupTrades (accepted_trades t) tol = Inr g)) \<and>
   (processReport P htm tol = Inl MissingSectionError \<or>
    processReport P htm tol = Inl EmptyReportError \<or>
    processReport P htm tol = Inl MalformedInputError \<or>
    (\<exists>g'. processReport P htm tol = Inr g'))"
proof -
  let ?tables = "getElementsByTagName ''table'' (P htm)"
  have at: "scan_rows False (map cell_texts (getElementsByTagName ''tr'' t)) = accepted_trades t" for t
    by (simp add: accepted_trades_def scan_rows_False)
  show ?thesis
  proof (cases "find_table ?tables")
    case None
    then have r: "processReport P htm tol = Inl MissingSectionError"
      by (simp add: processReport_def)
    have "\<forall>t\<in>set ?tables. \<not> str_includes (textContent t) ''Closed Transactions:''"
      using None by (simp add: find_table_None)
    then show ?thesis using None r by (simp add: closed_transactions_table_iff)
  next
    case (Some t)
    then have nb: "\<not> (\<forall>t\<in>set ?tables. \<not> str_includes (textContent t) ''Closed Transactions:'')"
      using find_table_None[of ?tables] by simp
    have ct: "closed_transactions_table ?tables t' = (t' = t)" for t'
      using Some by (auto simp: closed_transactions_table_iff)
    show ?thesis
    proof (cases "accepted_trades t = []")
      case True
      then have "processReport P htm tol = Inl EmptyReportError"
        using Some by (simp add: processReport_def Let_def at)
      then show ?thesis using nb True by (simp add: ct)
    next
      case False
      show ?thesis
      proof (cases "classifyAndGroupTrades (accepted_trades t) tol")
        case (Inl e)
        then have e: "classifyAndGroupTrades (accepted_trades t) tol = Inl TypeError"
          using classify_error by blast
        then have "processReport P htm tol = Inl MalformedInputError"
          using Some False by (simp add: processReport_def Let_def at)
        then show ?thesis using nb False e by (simp add: ct)
      next
        case (Inr g')
        then have "processReport P htm tol = Inr g'"
          using Some False by (simp add: processReport_def Let_def at)
        then show ?thesis using nb False Inr by (auto simp: ct)
      qed
    qed
  qed
qed

section \<open>Cells that hold no number\<close>

lemmas dom_eval =
  example_document_def example_row_def tr_def td_def getElementsByTagName_def cell_texts_def

lemmas row_eval =
  is_sentinel_def is_terminator_def is_trade_row_def row_to_trade_def or_else_def
  remove_spaces_def trim_def trimStart_def is_ws_def isNaN_def
  parseFloat_def parse_signed_def parse_unsigned_def parse_exponent_def is_digit_def
  digits_val_def digit_val_def

lemma toLowerCase_EURUSD: "toLowerCase ''EURUSD'' = ''eurusd''"
  by code_simp

lemma example_rows_1:
  "map cell_texts (getElementsByTagName ''tr''
      (Element ''table'' (map tr
         [[''Closed Transactions:''],
          example_row ''2025.06.25 16:09:01'' ''abc'' ''n/a'']))) =
   [[''Closed Transactions:''], example_row ''2025.06.25 16:09:01'' ''abc'' ''n/a'']"
  by (simp add: dom_eval)

text \<open>
  Claim C7 at cells that hold no number. A row whose Volume cell is \<open>abc\<close> and whose
  Profit cell is \<open>n/a\<close> yields a trade of size NaN and profit NaN, filed under the
  losers: only an empty cell is replaced by \<open>0\<close> before \<open>parseFloat\<close>. And a report
  with two rows whose open-time cells hold a date and no time is rejected as a whole:
  the comparator of the sort throws on them.
\<close>

theorem malformed_cells:
  "processReport
     (\<lambda>_. example_document
        [[''Closed Transactions:''],
         example_row ''2025.06.25 16:09:01'' ''abc'' ''n/a''])
     [] (Fin 0) =
   Inr [(''eurusd'',
         \<lparr>winners = [], breakeven = [],
          losers = [\<lparr>ticket = ''12345'', openTimeRaw = ''2025.06.25 16:09:01'',
                     type = ''buy'', size' = NaN, item = ''eurusd'',
                     openPrice = Fin (11 / 10), closeTimeRaw = ''2025.06.26 10:00:00'',
                     closePrice = Fin (111 / 100), profit = NaN\<rparr>]\<rparr>)] \<and>
   processReport
     (\<lambda>_. example_document
        [[''Closed Transactions:''],
         example_row ''2025.06.25'' ''0.10'' ''-5.00'',
         example_row ''2025.06.26'' ''0.10'' ''-7.00''])
     [] (Fin 0) = Inl MalformedInputError"
  by (simp add: processReport_def dom_eval row_eval classify_eval parseMT4DateToUTC_def toLowerCase_EURUSD)

text \<open>
  Claim C3 at a profit that is no number. A row whose Profit cell is \<open>n/a\<close> yields
  a trade of profit NaN. NaN fails both comparisons of the \<open>if\<close> chain, so the trade
  falls to the last branch and is filed under the losers at tolerance 5, although its
  profit is not below \<open>-5\<close>.
\<close>

theorem nan_profit_loser:
  "processReport
     (\<lambda>_. example_document
        [[''Closed Transactions:''],
         example_row ''2025.06.25 16:09:01'' ''0.10'' ''n/a''])
     [] (Fin 5) =
   Inr [(''eurusd'',
         \<lparr>winners = [], breakeven = [],
          losers = [(example_trade ''12345'' ''2025.06.25 16:09:01'' ''eurusd'' 0)
                      \<lparr>profit := NaN\<rparr>]\<rparr>)] \<and>
   classify (Fin 5)
     ((example_trade ''12345'' ''2025.06.25 16:09:01'' ''eurusd'' 0)\<lparr>profit := NaN\<rparr>) = Loser \<and>
   \<not> num_lt
       (profit ((example_trade ''12345'' ''2025.06.25 16:09:01'' ''eurusd'' 0)\<lparr>profit := NaN\<rparr>))
       (num_neg (Fin 5))"
  by (simp add: processReport_def dom_eval row_eval classify_eval parseMT4DateToUTC_def toLowerCase_EURUSD)

section \<open>The lines of the generated script\<close>

lemma split_on_nonempty: "split_on c s \<noteq> []"
  by (induction s) (auto split: list.splits)

lemma split_unlines:
  assumes "\<forall>l\<in>set ls. single_line l"
  shows "split_on newline (unlines ls @ rest) = ls @ split_on newline rest"
  using assms
proof (induction ls)
  case Nil
  then show ?case by (simp add: unlines_def)
next
  case (Cons l ls)
  then have "newline \<notin> set l" by (simp add: single_line_def)
  from split_on_append[OF this, of "unlines ls @ rest"] Cons show ?case
    by (simp add: unlines_def)
qed

lemma str_includes_middle: "str_includes (pre @ tok @ post) tok"
  unfolding str_includes_iff by blast

lemma single_line_append [simp]: "single_line (a @ b) = (single_line a \<and> single_line b)"
  by (auto simp: single_line_def)

lemma single_line_Cons [simp]: "single_line (c # s) = (c \<noteq> newline \<and> single_line s)"
  by (auto simp: single_line_def)

lemma single_line_Nil [simp]: "single_line []"
  by (simp add: single_line_def)

lemma single_line_toUpperCase: "single_line s \<Longrightarrow> single_line (toUpperCase s)"
proof (induction s)
  case Nil
  then show ?case by (simp add: toUpperCase_def)
next
  case (Cons c s)
  have "char_of ((of_char c :: nat) - 32) \<noteq> newline"
    if "97 \<le> (of_char c :: nat)" "(of_char c :: nat) \<le> 122"
  proof
    assume "char_of ((of_char c :: nat) - 32) = newline"
    then have "of_char (char_of ((of_char c :: nat) - 32)) = (of_char newline :: nat)" by simp
    then have "((of_char c :: nat) - 32) mod 256 = 10" by (simp add: newline_def)
    then show False using that by simp
  qed
  then show ?case using Cons by (auto simp: toUpperCase_def)
qed

lemma single_line_timestamp_call:
  "printer_single_line p \<Longrightarrow> single_line (timestamp_call p ts)"
  by (simp add: timestamp_call_def printer_single_line_def newline_def)

lemma label_not_line: "prefix ''    label.new('' m \<Longrightarrow> \<not> prefix ''    line.new('' m"
  by (auto simp: prefix_def)

lemma header_calls:
  "filter (prefix ''    label.new('') (script_header item_name) = []"
  "filter (prefix ''    line.new('') (script_header item_name) = []"
  by (simp_all add: script_header_def)

lemma header_single_line:
  assumes "single_line item_name"
  shows "\<forall>l\<in>set (script_header item_name). single_line l"
  using single_line_toUpperCase[OF assms]
  by (simp add: script_header_def newline_def dquote_def)

lemma winner_script:
  assumes "trade_script p winner t = Inr s" and "printer_single_line p" and "trade_single_line t"
  shows "\<exists>m1 m2 c. s = unlines [m1, m2, c] \<and>
           single_line m1 \<and> single_line m2 \<and> single_line c \<and>
           prefix ''    label.new('' m1 \<and> prefix ''    label.new('' m2 \<and>
           prefix ''    line.new('' c \<and>
           str_includes m1 ''style=label.style_diamond, color=color.new(color.green, 20), textcolor=color.green'' \<and>
           str_includes m2 ''style=label.style_diamond, color=color.new(color.green, 20), textcolor=color.green'' \<and>
           str_includes m1 (''Ticket: '' @ ticket t @ [backslash] @ ''nOpen: '') \<and>
           str_includes m2 (''Ticket: '' @ ticket t @ [backslash] @ ''nClose: '')"
proof -
  from assms(1) obtain ot ct where
    ts: "toTimestamp (openTimeRaw t) = Inr ot" "toTimestamp (closeTimeRaw t) = Inr ct"
    by (auto simp: trade_script_def split: sum.splits)
  let ?tail1 = "openTimeRaw t @ '' @ '' @ toString p (openPrice t) @ [backslash] @ ''nProfit: '' @
      toFixed2 p (profit t) @ [quote] @ '', xloc=xloc.bar_time, yloc=yloc.price)''"
  let ?tail2 = "closeTimeRaw t @ '' @ '' @ toString p (closePrice t) @ [backslash] @ ''nProfit: '' @
      toFixed2 p (profit t) @ [quote] @ '', xloc=xloc.bar_time, yloc=yloc.price)''"
  let ?head1 = "''    label.new('' @ timestamp_call p ot @ '', '' @ toString p (openPrice t) @ '', ''"
  let ?head2 = "''    label.new('' @ timestamp_call p ct @ '', '' @ toString p (closePrice t) @ '', ''"
  let ?green = "''style=label.style_diamond, color=color.new(color.green, 20), textcolor=color.green''"
  let ?m1 = "?head1 @ ?green @ ('', size=iconSize, tooltip='' @ [quote] @
               (''Ticket: '' @ ticket t @ [backslash] @ ''nOpen: '') @ ?tail1)"
  let ?m2 = "?head2 @ ?green @ ('', size=iconSize, tooltip='' @ [quote] @
               (''Ticket: '' @ ticket t @ [backslash] @ ''nClose: '') @ ?tail2)"
  let ?c = "''    line.new('' @ timestamp_call p ot @ '', '' @ toString p (openPrice t) @ '', '' @
              timestamp_call p ct @ '', '' @ toString p (closePrice t) @
              '', color=color.new(color.white, 20), style=line.style_dotted, width=1, xloc=xloc.bar_time)''"
  have s: "s = unlines [?m1, ?m2, ?c]"
    using assms(1) by (simp add: trade_script_def ts unlines_def Let_def)
  have sl: "single_line ?m1" "single_line ?m2" "single_line ?c"
    using assms(2,3) single_line_timestamp_call[OF assms(2)]
    by (simp_all add: printer_single_line_def trade_single_line_def newline_def quote_def backslash_def)
  have p: "prefix ''    label.new('' ?m1" "prefix ''    label.new('' ?m2" "prefix ''    line.new('' ?c"
    by simp_all
  have g: "str_includes ?m1 ?green" "str_includes ?m2 ?green"
    by (rule str_includes_middle)+
  have t1: "str_includes ?m1 (''Ticket: '' @ ticket t @ [backslash] @ ''nOpen: '')"
    using str_includes_middle[of "?head1 @ ?green @ '', size=iconSize, tooltip='' @ [quote]"
        "''Ticket: '' @ ticket t @ [backslash] @ ''nOpen: ''" ?tail1]
    by (simp only: append_assoc)
  have t2: "str_includes ?m2 (''Ticket: '' @ ticket t @ [backslash] @ ''nClose: '')"
    using str_includes_middle[of "?head2 @ ?green @ '', size=iconSize, tooltip='' @ [quote]"
        "''Ticket: '' @ ticket t @ [backslash] @ ''nClose: ''" ?tail2]
    by (simp only: append_assoc)
  show ?thesis
    using s sl p g t1 t2 by blast
qed

lemma breakeven_script:
  assumes "trade_script p breakeven_type t = Inr s" and "printer_single_line p"
    and "trade_single_line t"
  shows "\<exists>m. s = unlines [m] \<and> single_line m \<and> prefix ''    label.new('' m \<and>
           str_includes m ''style=label.style_circle, color=color.new(color.blue, 20), textcolor=color.blue'' \<and>
           str_includes m (''Ticket: '' @ ticket t @ [backslash] @ ''nTime: '')"
proof -
  from assms(1) obtain ot where ts: "toTimestamp (openTimeRaw t) = Inr ot"
    by (auto simp: trade_script_def split: sum.splits)
  let ?tail = "openTimeRaw t @ '' @ '' @ toString p (openPrice t) @ [backslash] @ ''nProfit: '' @
      toFixed2 p (profit t) @ [quote] @ '', xloc=xloc.bar_time, yloc=yloc.price)''"
  let ?head = "''    label.new('' @ timestamp_call p ot @ '', '' @ toString p (openPrice t) @ '', ''"
  let ?blue = "''style=label.style_circle, color=color.new(color.blue, 20), textcolor=color.blue''"
  let ?m = "?head @ ?blue @ ('', size=iconSize, tooltip='' @ [quote] @
               (''Ticket: '' @ ticket t @ [backslash] @ ''nTime: '') @ ?tail)"
  have s: "s = unlines [?m]"
    using assms(1) by (simp add: trade_script_def ts unlines_def Let_def)
  have sl: "single_line ?m"
    using assms(2,3) single_line_timestamp_call[OF assms(2)]
    by (simp add: printer_single_line_def trade_single_line_def newline_def quote_def backslash_def)
  have p: "prefix ''    label.new('' ?m" by simp
  have g: "str_includes ?m ?blue" by (rule str_includes_middle)
  have t1: "str_includes ?m (''Ticket: '' @ ticket t @ [backslash] @ ''nTime: '')"
    using str_includes_middle[of "?head @ ?blue @ '', size=iconSize, tooltip='' @ [quote]"
        "''Ticket: '' @ ticket t @ [backslash] @ ''nTime: ''" ?tail]
    by (simp only: append_assoc)
  show ?thesis using s sl p g t1 by blast
qed

lemma loser_script:
  assumes "trade_script p loser t = Inr s" and "printer_single_line p"
    and "trade_single_line t"
  shows "\<exists>m. s = unlines [m] \<and> single_line m \<and> prefix ''    label.new('' m \<and>
           str_includes m ''color=color.new(color.red, 20), textcolor=color.red'' \<and>
           str_includes m (if type t = ''buy'' then ''style=label.style_triangleup, ''
                           else ''style=label.style_triangledown, '') \<and>
           str_includes m (''Ticket: '' @ ticket t @ [backslash] @ ''nTime: '')"
proof -
  from assms(1) obtain ot where ts: "toTimestamp (openTimeRaw t) = Inr ot"
    by (auto simp: trade_script_def split: sum.splits)
  let ?tail = "openTimeRaw t @ '' @ '' @ toString p (openPrice t) @ [backslash] @ ''nProfit: '' @
      toFixed2 p (profit t) @ [quote] @ '', xloc=xloc.bar_time, yloc=yloc.price)''"
  let ?head = "''    label.new('' @ timestamp_call p ot @ '', '' @ toString p (openPrice t) @ '', ''"
  let ?red = "''color=color.new(color.red, 20), textcolor=color.red''"
  have shape: "\<exists>m. s = unlines [m] \<and> single_line m \<and> prefix ''    label.new'' m \<and>
           prefix ''    label.new('' m \<and> m = ?head @ style @ ?red @ ('', size=iconSize, tooltip='' @ [quote] @
               (''Ticket: '' @ ticket t @ [backslash] @ ''nTime: '') @ ?tail)"
    if "style = ''style=label.style_triangleup, '' \<and> type t = ''buy'' \<or>
        style = ''style=label.style_triangledown, '' \<and> type t \<noteq> ''buy''" for style
  proof -
    let ?m = "?head @ style @ ?red @ ('', size=iconSize, tooltip='' @ [quote] @
               (''Ticket: '' @ ticket t @ [backslash] @ ''nTime: '') @ ?tail)"
    have s: "s = unlines [?m]"
      using assms(1) that by (auto simp: trade_script_def ts unlines_def Let_def)
    have sl: "single_line ?m"
      using assms(2,3) single_line_timestamp_call[OF assms(2)] that
      by (auto simp: printer_single_line_def trade_single_line_def newline_def quote_def backslash_def)
    have p: "prefix ''    label.new('' ?m" "prefix ''    label.new'' ?m" by simp_all
    show ?thesis using s sl p by blast
  qed
  define style where "style = (if type t = ''buy'' then ''style=label.style_triangleup, ''
                           else ''style=label.style_triangledown, '')"
  then have "style = ''style=label.style_triangleup, '' \<and> type t = ''buy'' \<or>
        style = ''style=label.style_triangledown, '' \<and> type t \<noteq> ''buy''"
    by simp
  from shape[OF this] obtain m where
    m: "s = unlines [m]" "single_line m" "prefix ''    label.new('' m"
      "m = ?head @ style @ ?red @ ('', size=iconSize, tooltip='' @ [quote] @
               (''Ticket: '' @ ticket t @ [backslash] @ ''nTime: '') @ ?tail)"
    by blast
  have st: "str_includes m style" unfolding m(4) by (rule str_includes_middle)
  have g: "str_includes m ?red"
    unfolding m(4) using str_includes_middle[of "?head @ style" ?red] by (simp only: append_assoc)
  have t1: "str_includes m (''Ticket: '' @ ticket t @ [backslash] @ ''nTime: '')"
    unfolding m(4)
    using str_includes_middle[of "?head @ style @ ?red @ '', size=iconSize, tooltip='' @ [quote]"
        "''Ticket: '' @ ticket t @ [backslash] @ ''nTime: ''" ?tail]
    by (simp only: append_assoc)
  show ?thesis using m(1-3) st g t1 unfolding style_def by blast
qed

lemma generateLabels_single: "generateLabels p [t] ty = trade_script p ty t"
  by (simp split: sum.splits)

text \<open>
  Claim C10. Let \<open>generatePineScript\<close> return a script for one winner \<open>w\<close>, one
  break-even trade \<open>b\<close> and one loser \<open>l\<close>, none of whose copied texts holds a line
  feed. The script has exactly four lines that call \<open>label.new\<close> and exactly one that
  calls \<open>line.new\<close>. The first two markers are green diamonds with the open and the
  close tooltip of \<open>w\<close>, the third is a blue circle for \<open>b\<close>, the fourth is red for
  \<open>l\<close>, a triangle up when the type of \<open>l\<close> is the string \<open>buy\<close>, a triangle down
  for every other value.
\<close>

theorem script_markers:
  assumes "generatePineScript p item_name \<lparr>winners = [w], breakeven = [b], losers = [l]\<rparr> = Inr script"
    and "printer_single_line p" and "single_line item_name"
    and "trade_single_line w" and "trade_single_line b" and "trade_single_line l"
  shows "\<exists>m1 m2 m3 m4 c.
           label_calls script = [m1, m2, m3, m4] \<and> line_calls script = [c] \<and>
           str_includes m1 ''style=label.style_diamond, color=color.new(color.green, 20), textcolor=color.green'' \<and>
           str_includes m2 ''style=label.style_diamond, color=color.new(color.green, 20), textcolor=color.green'' \<and>
           str_includes m1 (''Ticket: '' @ ticket w @ [backslash] @ ''nOpen: '') \<and>
           str_includes m2 (''Ticket: '' @ ticket w @ [backslash] @ ''nClose: '') \<and>
           str_includes m3 ''style=label.style_circle, color=color.new(color.blue, 20), textcolor=color.blue'' \<and>
           str_includes m3 (''Ticket: '' @ ticket b @ [backslash] @ ''nTime: '') \<and>
           str_includes m4 ''color=color.new(color.red, 20), textcolor=color.red'' \<and>
           str_includes m4 (if type l = ''buy'' then ''style=label.style_triangleup, ''
                            else ''style=label.style_triangledown, '') \<and>
           str_includes m4 (''Ticket: '' @ ticket l @ [backslash] @ ''nTime: '')"
proof -
  from assms(1) obtain sw sb sl where
    g: "trade_script p winner w = Inr sw" "trade_script p breakeven_type b = Inr sb"
       "trade_script p loser l = Inr sl" and
    sc: "script = unlines (script_header item_name) @ sw @ [newline] @ ''    // Break Even'' @
           [newline] @ sb @ [newline] @ ''    // Losers'' @ [newline] @ sl @ [newline]"
    by (auto simp: generatePineScript_def generateLabels_single split: sum.splits)
  from winner_script[OF g(1) assms(2,4)] obtain m1 m2 c where
    w: "sw = unlines [m1, m2, c]" "single_line m1" "single_line m2" "single_line c"
       "prefix ''    label.new('' m1" "prefix ''    label.new('' m2" "prefix ''    line.new('' c"
       "str_includes m1 ''style=label.style_diamond, color=color.new(color.green, 20), textcolor=color.green''"
       "str_includes m2 ''style=label.style_diamond, color=color.new(color.green, 20), textcolor=color.green''"
       "str_includes m1 (''Ticket: '' @ ticket w @ [backslash] @ ''nOpen: '')"
       "str_includes m2 (''Ticket: '' @ ticket w @ [backslash] @ ''nClose: '')"
    by blast
  from breakeven_script[OF g(2) assms(2,5)] obtain m3 where
    b: "sb = unlines [m3]" "single_line m3" "prefix ''    label.new('' m3"
       "str_includes m3 ''style=label.style_circle, color=color.new(color.blue, 20), textcolor=color.blue''"
       "str_includes m3 (''Ticket: '' @ ticket b @ [backslash] @ ''nTime: '')"
    by blast
  from loser_script[OF g(3) assms(2,6)] obtain m4 where
    l: "sl = unlines [m4]" "single_line m4" "prefix ''    label.new('' m4"
       "str_includes m4 ''color=color.new(color.red, 20), textcolor=color.red''"
       "str_includes m4 (if type l = ''buy'' then ''style=label.style_triangleup, ''
                            else ''style=label.style_triangledown, '')"
       "str_includes m4 (''Ticket: '' @ ticket l @ [backslash] @ ''nTime: '')"
    by blast
  let ?body = "[m1, m2, c, [], ''    // Break Even'', m3, [], ''    // Losers'', m4, []]"
  have script: "script = unlines (script_header item_name @ ?body) @ []"
    unfolding sc w(1) b(1) l(1) by (simp add: unlines_def)
  have "\<forall>x\<in>set (script_header item_name @ ?body). single_line x"
    using header_single_line[OF assms(3)] w(2-4) b(2) l(2) by (simp add: newline_def)
  from split_unlines[OF this, of "[]"]
  have lines: "script_lines script = script_header item_name @ ?body @ [[]]"
    unfolding script_lines_def script by simp
  have nl: "\<not> prefix ''    line.new('' m1" "\<not> prefix ''    line.new('' m2"
    "\<not> prefix ''    line.new('' m3" "\<not> prefix ''    line.new('' m4"
    using w(5,6) b(3) l(3) by (simp_all add: label_not_line)
  have nc: "\<not> prefix ''    label.new('' c"
    using w(7) label_not_line by blast
  have lc: "label_calls script = [m1, m2, m3, m4]"
    unfolding label_calls_def lines using w(5,6) b(3) l(3) nc by (simp add: header_calls)
  have cc: "line_calls script = [c]"
    unfolding line_calls_def lines using w(7) nl by (simp add: header_calls)
  show ?thesis
    using lc cc w(8-11) b(4,5) l(4-6) by blast
qed

section \<open>A generated script\<close>

lemma single_line_show_nat: "single_line (show_nat n)"
proof (induction n rule: show_nat.induct)
  case (1 n)
  have d: "char_of (48 + k) \<noteq> newline" if "k < 10" for k :: nat
  proof
    assume "char_of (48 + k) = newline"
    then have "of_char (char_of (48 + k)) = (of_char newline :: nat)" by simp
    then show False using that by (simp add: newline_def)
  qed
  show ?case
  proof (cases "n < 10")
    case True
    then show ?thesis using d[of n] by (subst show_nat.simps) simp
  next
    case False
    then show ?thesis using 1 d[of "n mod 10"] by (subst show_nat.simps) simp
  qed
qed

lemma single_line_replicate: "c \<noteq> newline \<Longrightarrow> single_line (replicate n c)"
  by (induction n) simp_all

lemma single_line_show_decimal: "single_line (show_decimal k r)"
  by (simp add: show_decimal_def Let_def single_line_show_nat single_line_replicate newline_def)

lemma example_printer_single_line: "printer_single_line example_printer"
  unfolding printer_single_line_def
proof
  fix x
  show "single_line (toString example_printer x) \<and> single_line (toFixed2 example_printer x)"
    by (cases x)
      (simp_all add: example_printer_def single_line_show_nat single_line_show_decimal newline_def)
qed

lemma split_on_two: "c \<in> set s \<Longrightarrow> \<exists>a b r. split_on c s = a # b # r"
proof (induction s)
  case Nil
  then show ?case by simp
next
  case (Cons x s)
  show ?case
  proof (cases "x = c")
    case True
    obtain b r where "split_on c s = b # r" using split_on_nonempty[of c s] by (cases "split_on c s") auto
    then show ?thesis using True by simp
  next
    case False
    then have "c \<in> set s" using Cons.prems by simp
    from Cons.IH[OF this] obtain a b r where "split_on c s = a # b # r" by blast
    then show ?thesis using False by simp
  qed
qed

lemma toTimestamp_returns: "CHR '' '' \<in> set s \<Longrightarrow> \<exists>ts. toTimestamp s = Inr ts"
proof -
  assume "CHR '' '' \<in> set s"
  from split_on_two[OF this] obtain a b r where "split_on CHR '' '' s = a # b # r" by blast
  then show ?thesis by (simp add: toTimestamp_def parseMT4DateToUTC_def Let_def)
qed

lemma trade_script_returns:
  assumes "CHR '' '' \<in> set (openTimeRaw t)" and "ty = winner \<longrightarrow> CHR '' '' \<in> set (closeTimeRaw t)"
  shows "\<exists>s. trade_script p ty t = Inr s"
proof -
  from toTimestamp_returns[OF assms(1)] obtain ot where ot: "toTimestamp (openTimeRaw t) = Inr ot"
    by blast
  show ?thesis
  proof (cases ty)
    case winner
    then have "CHR '' '' \<in> set (closeTimeRaw t)" using assms(2) by simp
    from toTimestamp_returns[OF this] obtain ct where "toTimestamp (closeTimeRaw t) = Inr ct"
      by blast
    then show ?thesis using winner ot by (simp add: trade_script_def Let_def)
  next
    case breakeven_type
    then show ?thesis using ot by (simp add: trade_script_def Let_def)
  next
    case loser
    then show ?thesis using ot by (simp add: trade_script_def Let_def)
  qed
qed

lemma generateLabels_returns:
  assumes "\<forall>t\<in>set ts. CHR '' '' \<in> set (openTimeRaw t) \<and> (ty = winner \<longrightarrow> CHR '' '' \<in> set (closeTimeRaw t))"
  shows "\<exists>s. generateLabels p ts ty = Inr s"
  using assms
proof (induction ts)
  case Nil
  then show ?case by simp
next
  case (Cons t ts)
  then obtain s where "trade_script p ty t = Inr s"
    using trade_script_returns[of t ty p] by auto
  moreover obtain r where "generateLabels p ts ty = Inr r" using Cons by auto
  ultimately show ?case by simp
qed

lemma generatePineScript_returns:
  assumes "\<forall>t\<in>set (winners d). CHR '' '' \<in> set (openTimeRaw t) \<and> CHR '' '' \<in> set (closeTimeRaw t)"
    and "\<forall>t\<in>set (breakeven d). CHR '' '' \<in> set (openTimeRaw t)"
    and "\<forall>t\<in>set (losers d). CHR '' '' \<in> set (openTimeRaw t)"
  shows "\<exists>s. generatePineScript p i d = Inr s"
proof -
  obtain w where "generateLabels p (winners d) winner = Inr w"
    using generateLabels_returns[of "winners d" winner p] assms(1) by auto
  moreover obtain b where "generateLabels p (breakeven d) breakeven_type = Inr b"
    using generateLabels_returns[of "breakeven d" breakeven_type p] assms(2) by auto
  moreover obtain l where "generateLabels p (losers d) loser = Inr l"
    using generateLabels_returns[of "losers d" loser p] assms(3) by auto
  ultimately show ?thesis by (simp add: generatePineScript_def)
qed

text \<open>
  The script of one winner, one break-even trade and one loser of type \<open>buy\<close>.
\<close>

theorem script_markers_witness:
  "printer_single_line example_printer \<and> single_line ''eurusd'' \<and>
   trade_single_line (example_trade ''204'' ''2025.06.25 16:09:01'' ''eurusd'' 80) \<and>
   trade_single_line (example_trade ''201'' ''2025.06.25 16:09:01'' ''eurusd'' 5) \<and>
   trade_single_line (example_trade ''205'' ''2025.06.25 16:09:01'' ''eurusd'' (- 6)) \<and>
   (\<exists>script m1 m2 m3 m4 c.
      generatePineScript example_printer ''eurusd''
        \<lparr>winners = [example_trade ''204'' ''2025.06.25 16:09:01'' ''eurusd'' 80],
         breakeven = [example_trade ''201'' ''2025.06.25 16:09:01'' ''eurusd'' 5],
         losers = [example_trade ''205'' ''2025.06.25 16:09:01'' ''eurusd'' (- 6)]\<rparr> = Inr script \<and>
      label_calls script = [m1, m2, m3, m4] \<and> line_calls script = [c] \<and>
      str_includes m4 ''style=label.style_triangleup, '')"
proof -
  let ?w = "example_trade ''204'' ''2025.06.25 16:09:01'' ''eurusd'' 80"
  let ?b = "example_trade ''201'' ''2025.06.25 16:09:01'' ''eurusd'' 5"
  let ?l = "example_trade ''205'' ''2025.06.25 16:09:01'' ''eurusd'' (- 6)"
  have h: "single_line ''eurusd''" "trade_single_line ?w" "trade_single_line ?b" "trade_single_line ?l"
    by (simp_all add: trade_single_line_def example_trade_def newline_def)
  obtain script where
    s: "generatePineScript example_printer ''eurusd'' \<lparr>winners = [?w], breakeven = [?b], losers = [?l]\<rparr> = Inr script"
    using generatePineScript_returns[of "\<lparr>winners = [?w], breakeven = [?b], losers = [?l]\<rparr>" example_printer "''eurusd''"]
    by (auto simp: example_trade_def)
  have buy: "type ?l = ''buy''" by (simp add: example_trade_def)
  from script_markers[OF s example_printer_single_line h] obtain m1 m2 m3 m4 c where
    "label_calls script = [m1, m2, m3, m4]" "line_calls script = [c]"
    "str_includes m4 ''style=label.style_triangleup, ''"
    unfolding buy by auto
  then show ?thesis using s h example_printer_single_line by blast
qed

section \<open>A parsed report\<close>

lemma example_row_trade:
  "row_to_trade (example_row ''2025.06.25 16:09:01'' ''0.10'' ''80.00'') =
     \<lparr>ticket = ''12345'', openTimeRaw = ''2025.06.25 16:09:01'', type = ''buy'',
      size' = Fin (1 / 10), item = ''eurusd'', openPrice = Fin (11 / 10),
      closeTimeRaw = ''2025.06.26 10:00:00'', closePrice = Fin (111 / 100),
      profit = Fin 80\<rparr>"
  by (simp add: example_row_def row_eval toLowerCase_EURUSD)


text \<open>
  Three documents: none of its tables holds the marker; the table holds the sentinel and
  no trade row; the table holds one trade row.
\<close>

theorem processReport_outcomes_witness:
  "processReport (\<lambda>_. Element ''html'' [Element ''body'' [Element ''table'' [tr [''Summary:'']]]])
     [] (Fin 0) = Inl MissingSectionError \<and>
   processReport (\<lambda>_. example_document [[''Closed Transactions:''], [''12345'', ''balance'']])
     [] (Fin 0) = Inl EmptyReportError \<and>
   processReport
     (\<lambda>_. example_document
        [[''Closed Transactions:''],
         example_row ''2025.06.25 16:09:01'' ''0.10'' ''80.00''])
     [] (Fin 0) =
   Inr [(''eurusd'',
         \<lparr>winners = [row_to_trade (example_row ''2025.06.25 16:09:01'' ''0.10'' ''80.00'')],
          breakeven = [], losers = []\<rparr>)]"
proof -
  let ?P = "\<lambda>_ :: string. Element ''html'' [Element ''body'' [Element ''table'' [tr [''Summary:'']]]]"
  have "\<forall>t\<in>set (getElementsByTagName ''table'' (?P [])).
          \<not> str_includes (textContent t) ''Closed Transactions:''"
    by (simp add: dom_eval)
  then have 1: "processReport ?P [] (Fin 0) = Inl MissingSectionError"
    using processReport_outcomes[of ?P "[]" "Fin 0"] by blast
  have 2: "processReport (\<lambda>_. example_document [[''Closed Transactions:''], [''12345'', ''balance'']])
     [] (Fin 0) = Inl EmptyReportError"
    by (simp add: processReport_def dom_eval row_eval)
  have 3: "processReport
     (\<lambda>_. example_document
        [[''Closed Transactions:''],
         example_row ''2025.06.25 16:09:01'' ''0.10'' ''80.00''])
     [] (Fin 0) =
   Inr [(''eurusd'',
         \<lparr>winners = [row_to_trade (example_row ''2025.06.25 16:09:01'' ''0.10'' ''80.00'')],
          breakeven = [], losers = []\<rparr>)]"
    unfolding example_row_trade
    by (simp add: processReport_def dom_eval row_eval classify_eval toLowerCase_EURUSD)
  show ?thesis using 1 2 3 by simp
qed

end
